theory Spec2Isabelle
  imports Main "HOL-Library.AList" "HOL-Library.Sublist" "HOL-Library.Word"
begin

section \<open>Python values used by the two generator scripts\<close>

text \<open>
  The scripts \<^verbatim>\<open>generate_logo.py\<close> and \<^verbatim>\<open>generate_round3.py\<close> call three external
  libraries: httpx (network), base64 and PIL. Their behaviour is an input of the model
  (record \<open>env\<close> below); everything the scripts themselves do is written out.
  Every exception that can leave a script function is a value of type \<open>error\<close>, and a
  function that can raise returns \<open>error + 'a\<close> together with the world it left behind.
\<close>

datatype error =
    HTTPStatusError nat string
  | TransportError
  | JSONDecodeError
  | TypeError
  | KeyError
  | IndexError
  | Base64Error
  | UnidentifiedImageError
  | SystemExit int

type_synonym bytes = "8 word list"

subsection \<open>Decimal formatting: \<^verbatim>\<open>str(n)\<close> and the format spec \<^verbatim>\<open>02d\<close>\<close>

definition digit_char :: "nat \<Rightarrow> char" where
  "digit_char d = ''0123456789'' ! d"

fun str_nat :: "nat \<Rightarrow> string" where
  "str_nat n = (if n < 10 then [digit_char n] else str_nat (n div 10) @ [digit_char (n mod 10)])"

declare str_nat.simps [simp del]

definition str_int :: "int \<Rightarrow> string" where
  "str_int i = (if i < 0 then CHR ''-'' # str_nat (nat (- i)) else str_nat (nat i))"

text \<open>
  \<^verbatim>\<open>f"{i:02d}"\<close>: the decimal numeral, zero-padded to a minimum width of two. A negative
  number already has two characters with its sign, so it is never padded.
\<close>

definition fmt_02d :: "int \<Rightarrow> string" where
  "fmt_02d i =
     (if i < 0 then str_int i
      else replicate (2 - length (str_nat (nat i))) CHR ''0'' @ str_nat (nat i))"

subsection \<open>Paths (pathlib)\<close>

text \<open>
  A path is the list of its parts, as \<^verbatim>\<open>PurePath.parts\<close> has it; an absolute path starts
  with the part \<^verbatim>\<open>/\<close>. The operator \<^verbatim>\<open>/\<close> splits its right operand at slashes and drops
  empty and \<^verbatim>\<open>.\<close> segments; an absolute right operand replaces the left one.
\<close>

type_synonym path = "string list"

fun split_on :: "char \<Rightarrow> string \<Rightarrow> string list" where
  "split_on c [] = [[]]"
| "split_on c (x # xs) =
     (if x = c then [] # split_on c xs
      else (case split_on c xs of [] \<Rightarrow> [[x]] | p # ps \<Rightarrow> (x # p) # ps))"

definition segments :: "string \<Rightarrow> string list" where
  "segments s = filter (\<lambda>q. q \<noteq> [] \<and> q \<noteq> ''.'') (split_on CHR ''/'' s)"

definition path_div :: "path \<Rightarrow> string \<Rightarrow> path" where
  "path_div p s =
     (case s of
        [] \<Rightarrow> p
      | c # _ \<Rightarrow> if c = CHR ''/'' then ''/'' # segments s else p @ segments s)"

fun join_slash :: "string list \<Rightarrow> string" where
  "join_slash [] = []"
| "join_slash [q] = q"
| "join_slash (q # r # rs) = q @ ''/'' @ join_slash (r # rs)"

definition path_str :: "path \<Rightarrow> string" where
  "path_str p =
     (case p of
        [] \<Rightarrow> ''.''
      | q # qs \<Rightarrow> if q = ''/'' then ''/'' @ join_slash qs else join_slash p)"

definition path_parent :: "path \<Rightarrow> path" where
  "path_parent p = (if p = [''/''] then p else butlast p)"

subsection \<open>Parsed JSON and the dynamic operations the scripts apply to it\<close>

text \<open>
  \<open>JObj\<close> is a parsed dict, given as an association list in which the first binding of a
  key is the dict's value for it.
\<close>

datatype json =
    JNull
  | JBool bool
  | JNum int
  | JStr string
  | JArr "json list"
  | JObj "(string \<times> json) list"

text \<open>\<^verbatim>\<open>k in v\<close> for a string \<open>k\<close>: key membership, element membership, substring.\<close>

fun py_in :: "string \<Rightarrow> json \<Rightarrow> error + bool" where
  "py_in k (JObj kvs) = Inr (k \<in> set (map fst kvs))"
| "py_in k (JArr xs) = Inr (JStr k \<in> set xs)"
| "py_in k (JStr s) = Inr (sublist k s)"
| "py_in k JNull = Inl TypeError"
| "py_in k (JBool b) = Inl TypeError"
| "py_in k (JNum n) = Inl TypeError"

text \<open>\<^verbatim>\<open>v[k]\<close> for a string \<open>k\<close>.\<close>

fun py_getitem :: "json \<Rightarrow> string \<Rightarrow> error + json" where
  "py_getitem (JObj kvs) k = (case map_of kvs k of None \<Rightarrow> Inl KeyError | Some v \<Rightarrow> Inr v)"
| "py_getitem v k = Inl TypeError"

fun py_len :: "json \<Rightarrow> error + nat" where
  "py_len (JObj kvs) = Inr (length (remdups (map fst kvs)))"
| "py_len (JArr xs) = Inr (length xs)"
| "py_len (JStr s) = Inr (length s)"
| "py_len v = Inl TypeError"

text \<open>\<^verbatim>\<open>v[0]\<close>: a dict parsed from JSON has string keys only, so the key \<open>0\<close> is missing.\<close>

fun py_getitem0 :: "json \<Rightarrow> error + json" where
  "py_getitem0 (JArr (x # xs)) = Inr x"
| "py_getitem0 (JArr []) = Inl IndexError"
| "py_getitem0 (JStr (c # cs)) = Inr (JStr [c])"
| "py_getitem0 (JStr []) = Inl IndexError"
| "py_getitem0 (JObj kvs) = Inl KeyError"
| "py_getitem0 v = Inl TypeError"

section \<open>The world: network, console, clock and file system\<close>

text \<open>
  A request records what the script hands to httpx: URL, headers, JSON payload and the
  client's timeout in seconds for a POST; URL and timeout for a GET. A dict payload is an
  association list in insertion order (\<open>AList.update\<close> keeps the position of an existing
  key and appends a new one, as a Python dict does).
\<close>

datatype request =
    POST string "(string \<times> string) list" "(string \<times> json) list" nat
  | GET string nat

record response =
  status_code :: nat
  resp_text :: string
  resp_json :: "json option"
  resp_content :: bytes

datatype net_outcome = Raises | Responds response

text \<open>Sleeps are recorded in milliseconds.\<close>

datatype event =
    Print string
  | NetCall request
  | Sleep nat
  | Mkdir path
  | WriteFile path bytes

text \<open>
  The environment: \<open>net n req\<close> is what the network does with the request \<open>req\<close> when it
  is the \<open>n\<close>-th call (from 0) of the run: it raises a transport error or answers.
  \<open>resp_json\<close> is \<open>None\<close> when the body is not JSON. \<open>b64decode\<close> is \<open>None\<close> where
  \<^verbatim>\<open>base64.b64decode\<close> raises, \<open>image_open\<close> is \<open>None\<close> where \<^verbatim>\<open>Image.open\<close> raises, and
  the size of the image otherwise.
\<close>

record env =
  net :: "nat \<Rightarrow> request \<Rightarrow> net_outcome"
  b64decode :: "string \<Rightarrow> bytes option"
  image_open :: "bytes \<Rightarrow> (nat \<times> nat) option"

text \<open>
  The world a script runs in: the trace of its effects in order, the number of network
  calls made, and the file system (files with their contents, directories). File-system
  operations always succeed in this model.
\<close>

record world =
  trace :: "event list"
  ncalls :: nat
  files :: "path \<rightharpoonup> bytes"
  dirs :: "path set"

definition emit :: "event \<Rightarrow> world \<Rightarrow> world" where
  "emit e w = w\<lparr>trace := trace w @ [e]\<rparr>"

definition print :: "string \<Rightarrow> world \<Rightarrow> world" where
  "print s w = emit (Print s) w"

definition sleep :: "nat \<Rightarrow> world \<Rightarrow> world" where
  "sleep ms w = emit (Sleep ms) w"

definition path_exists :: "world \<Rightarrow> path \<Rightarrow> bool" where
  "path_exists w p \<longleftrightarrow> p \<in> dom (files w) \<or> p \<in> dirs w"

text \<open>\<^verbatim>\<open>p.mkdir(parents=True, exist_ok=True)\<close>\<close>

definition mkdir :: "path \<Rightarrow> world \<Rightarrow> world" where
  "mkdir p w = emit (Mkdir p) (w\<lparr>dirs := dirs w \<union> set (prefixes p)\<rparr>)"

text \<open>\<^verbatim>\<open>with open(p, "wb") as f: f.write(b)\<close>\<close>

definition write_file :: "path \<Rightarrow> bytes \<Rightarrow> world \<Rightarrow> world" where
  "write_file p b w = emit (WriteFile p b) (w\<lparr>files := (files w)(p \<mapsto> b)\<rparr>)"

text \<open>One network call: it is recorded and counted whether it raises or answers.\<close>

definition send :: "env \<Rightarrow> request \<Rightarrow> world \<Rightarrow> (error + response) \<times> world" where
  "send E req w =
     (let w' = (emit (NetCall req) w)\<lparr>ncalls := Suc (ncalls w)\<rparr>
      in case net E (ncalls w) req of
           Raises \<Rightarrow> (Inl TransportError, w')
         | Responds r \<Rightarrow> (Inr r, w'))"

text \<open>\<^verbatim>\<open>response.raise_for_status()\<close>: httpx raises for every status outside 2xx.\<close>

definition is_success :: "response \<Rightarrow> bool" where
  "is_success r \<longleftrightarrow> 200 \<le> status_code r \<and> status_code r < 300"

definition raise_for_status :: "response \<Rightarrow> error + response" where
  "raise_for_status r =
     (if is_success r then Inr r
      else Inl (HTTPStatusError (status_code r) (resp_text r)))"

definition post_checked :: "env \<Rightarrow> request \<Rightarrow> world \<Rightarrow> (error + response) \<times> world" where
  "post_checked E req w =
     (case send E req w of
        (Inl e, w') \<Rightarrow> (Inl e, w')
      | (Inr r, w') \<Rightarrow> (raise_for_status r, w'))"

section \<open>The image requestor: \<^verbatim>\<open>generate_image\<close>\<close>

text \<open>
  Both scripts define \<^verbatim>\<open>generate_image\<close> with the same body; they differ in the timeout of
  the POST client and in the wording of two log lines. The module constants \<^verbatim>\<open>MODEL\<close> and
  \<^verbatim>\<open>FALLBACK_MODEL\<close> and these three literals are the fields of \<open>gen_cfg\<close>.
\<close>

record gen_cfg =
  MODEL :: string
  FALLBACK_MODEL :: string
  post_timeout :: nat
  msg_trying :: string
  msg_fallback_failed :: string

definition API_URL :: string where
  "API_URL = ''https://api.openai.com/v1/images/generations''"

definition logo_cfg :: gen_cfg where
  "logo_cfg = \<lparr>MODEL = ''gpt-image-1'', FALLBACK_MODEL = ''dall-e-3'', post_timeout = 120,
     msg_trying = ''  Trying fallback model: '',
     msg_fallback_failed = ''  Fallback also failed (''\<rparr>"

definition round3_cfg :: gen_cfg where
  "round3_cfg = \<lparr>MODEL = ''gpt-image-1'', FALLBACK_MODEL = ''dall-e-3'', post_timeout = 180,
     msg_trying = ''  Trying fallback: '',
     msg_fallback_failed = ''  Fallback failed (''\<rparr>"

type_synonym 'a result = "(error + 'a) \<times> world"

definition unexpected_format :: "world \<Rightarrow> bytes option result" where
  "unexpected_format w = (Inr None, print ''  Unexpected response format'' w)"

text \<open>\<^verbatim>\<open>base64.b64decode(item["b64_json"])\<close>: a type error unless the value is a string.\<close>

definition decode_b64 :: "env \<Rightarrow> json \<Rightarrow> error + bytes option" where
  "decode_b64 E v =
     (case v of
        JStr s \<Rightarrow> (case b64decode E s of None \<Rightarrow> Inl Base64Error | Some b \<Rightarrow> Inr (Some b))
      | _ \<Rightarrow> Inl TypeError)"

text \<open>The follow-up download with a client of its own (timeout 60 s).\<close>

definition download :: "env \<Rightarrow> json \<Rightarrow> world \<Rightarrow> bytes option result" where
  "download E u w =
     (case u of
        JStr url \<Rightarrow>
          (case send E (GET url 60) w of
             (Inl e, w') \<Rightarrow> (Inl e, w')
           | (Inr r, w') \<Rightarrow>
               (case raise_for_status r of
                  Inl e \<Rightarrow> (Inl e, w')
                | Inr r' \<Rightarrow> (Inr (Some (resp_content r')), w')))
      | _ \<Rightarrow> (Inl TypeError, w))"

text \<open>From \<^verbatim>\<open>data = response.json()\<close> to the end of \<^verbatim>\<open>generate_image\<close>.\<close>

definition read_response :: "env \<Rightarrow> response \<Rightarrow> world \<Rightarrow> bytes option result" where
  "read_response E r w =
     (case resp_json r of
        None \<Rightarrow> (Inl JSONDecodeError, w)
      | Some data \<Rightarrow>
     (case py_in ''data'' data of
        Inl e \<Rightarrow> (Inl e, w)
      | Inr has_data \<Rightarrow>
     if \<not> has_data then unexpected_format w else
     (case py_getitem data ''data'' of
        Inl e \<Rightarrow> (Inl e, w)
      | Inr d \<Rightarrow>
     (case py_len d of
        Inl e \<Rightarrow> (Inl e, w)
      | Inr n \<Rightarrow>
     if \<not> n > 0 then unexpected_format w else
     (case py_getitem0 d of
        Inl e \<Rightarrow> (Inl e, w)
      | Inr item \<Rightarrow>
     (case py_in ''b64_json'' item of
        Inl e \<Rightarrow> (Inl e, w)
      | Inr has_b64 \<Rightarrow>
     if has_b64 then
       (case py_getitem item ''b64_json'' of
          Inl e \<Rightarrow> (Inl e, w)
        | Inr v \<Rightarrow> (decode_b64 E v, w))
     else
     (case py_in ''url'' item of
        Inl e \<Rightarrow> (Inl e, w)
      | Inr has_url \<Rightarrow>
     if has_url then
       (case py_getitem item ''url'' of
          Inl e \<Rightarrow> (Inl e, w)
        | Inr u \<Rightarrow> download E u w)
     else unexpected_format w)))))))"

definition primary_payload :: "gen_cfg \<Rightarrow> string \<Rightarrow> string \<Rightarrow> string \<Rightarrow> (string \<times> json) list" where
  "primary_payload C prompt sz quality =
     [(''model'', JStr (MODEL C)), (''prompt'', JStr prompt), (''size'', JStr sz),
      (''quality'', JStr quality), (''n'', JNum 1), (''output_format'', JStr ''png'')]"

text \<open>The three mutations of the payload in the handler of the primary call's HTTP error.\<close>

definition fallback_payload :: "gen_cfg \<Rightarrow> (string \<times> json) list \<Rightarrow> (string \<times> json) list" where
  "fallback_payload C payload =
     AList.update ''response_format'' (JStr ''b64_json'')
       (AList.delete ''output_format''
         (AList.update ''model'' (JStr (FALLBACK_MODEL C)) payload))"

text \<open>The body of \<^verbatim>\<open>except httpx.HTTPStatusError as e\<close> and what follows it.\<close>

definition on_http_error ::
  "gen_cfg \<Rightarrow> env \<Rightarrow> (string \<times> string) list \<Rightarrow> (string \<times> json) list \<Rightarrow> nat \<Rightarrow> string
     \<Rightarrow> world \<Rightarrow> bytes option result" where
  "on_http_error C E headers payload st error_body w =
     (let w1 = print (''  API error ('' @ str_nat st @ ''): '' @ take 300 error_body) w in
      if MODEL C \<noteq> FALLBACK_MODEL C then
        (let w2 = print (msg_trying C @ FALLBACK_MODEL C @ ''...'') w1 in
         case post_checked E (POST API_URL headers (fallback_payload C payload) (post_timeout C)) w2 of
           (Inr response, w3) \<Rightarrow> read_response E response w3
         | (Inl e2, w3) \<Rightarrow>
             (case e2 of
                HTTPStatusError st2 text2 \<Rightarrow>
                  (Inr None,
                   print (msg_fallback_failed C @ str_nat st2 @ ''): '' @ take 300 text2) w3)
              | _ \<Rightarrow> (Inl e2, w3)))
      else (Inr None, w1))"

definition generate_image_with ::
  "gen_cfg \<Rightarrow> env \<Rightarrow> string \<Rightarrow> string \<Rightarrow> string \<Rightarrow> string \<Rightarrow> world \<Rightarrow> bytes option result" where
  "generate_image_with C E api_key prompt sz quality w =
     (let headers = [(''Authorization'', ''Bearer '' @ api_key)];
          payload = primary_payload C prompt sz quality;
          w1 = print (''  Calling '' @ MODEL C @ '' ('' @ sz @ '', '' @ quality @ '')...'') w
      in case post_checked E (POST API_URL headers payload (post_timeout C)) w1 of
           (Inr response, w2) \<Rightarrow> read_response E response w2
         | (Inl e, w2) \<Rightarrow>
             (case e of
                HTTPStatusError st error_body \<Rightarrow> on_http_error C E headers payload st error_body w2
              | _ \<Rightarrow> (Inl e, w2)))"

text \<open>\<^verbatim>\<open>generate_image\<close> of \<^verbatim>\<open>generate_logo.py\<close> and of \<^verbatim>\<open>generate_round3.py\<close>.\<close>

definition generate_image :: "env \<Rightarrow> string \<Rightarrow> string \<Rightarrow> string \<Rightarrow> string \<Rightarrow> world \<Rightarrow> bytes option result" where
  "generate_image = generate_image_with logo_cfg"

definition generate_image_r3 :: "env \<Rightarrow> string \<Rightarrow> string \<Rightarrow> string \<Rightarrow> string \<Rightarrow> world \<Rightarrow> bytes option result" where
  "generate_image_r3 = generate_image_with round3_cfg"

section \<open>The batch runner of \<^verbatim>\<open>generate_logo.py\<close>\<close>

definition nl :: string where
  "nl = [CHR 0x0A]"

definition rule60 :: string where
  "rule60 = replicate 60 CHR ''=''"

definition CONCEPT_DIRS :: "(int \<times> string) list" where
  "CONCEPT_DIRS =
     [(1, ''concepts/01-kiln-mark''), (2, ''concepts/02-earthen-strata''),
      (3, ''concepts/03-winding-path''), (4, ''concepts/04-vermillion-leaf'')]"

text \<open>
  An entry of \<^verbatim>\<open>CONCEPT_PROMPTS\<close>. The prompt texts are long literals on which no function
  branches: the table is \<open>CONCEPT_PROMPTS texts\<close> for the four texts, and the functions
  below take the table as their first argument.
\<close>

record concept =
  name :: string
  prompt :: string

definition CONCEPT_PROMPTS :: "(int \<Rightarrow> string) \<Rightarrow> (int \<times> concept) list" where
  "CONCEPT_PROMPTS texts =
     [(1, \<lparr>name = ''The Kiln Mark'', prompt = texts 1\<rparr>),
      (2, \<lparr>name = ''Earthen Strata'', prompt = texts 2\<rparr>),
      (3, \<lparr>name = ''The Winding Path'', prompt = texts 3\<rparr>),
      (4, \<lparr>name = ''The Vermillion Leaf'', prompt = texts 4\<rparr>)]"

text \<open>\<^verbatim>\<open>save_image\<close>: create the parent directory, write the bytes, then open them as an image.\<close>

definition save_image :: "env \<Rightarrow> bytes \<Rightarrow> path \<Rightarrow> world \<Rightarrow> unit result" where
  "save_image E image_bytes output_path w =
     (let w1 = mkdir (path_parent output_path) w;
          w2 = write_file output_path image_bytes w1
      in case image_open E image_bytes of
           None \<Rightarrow> (Inl UnidentifiedImageError, w2)
         | Some (wd, ht) \<Rightarrow>
             (Inr (),
              print (''  Saved: '' @ path_str output_path @ '' ('' @ str_nat wd @ ''x''
                       @ str_nat ht @ '')'') w2))"

definition variation_hints :: "string list" where
  "variation_hints =
     ['' Explore a different compositional arrangement.'',
      '' Try a bolder, more minimal interpretation.'',
      '' Emphasize the typography more prominently.'',
      '' Make the mark/icon more abstract and simplified.'',
      '' Try a horizontal lockup layout.'']"

definition variation_suffix :: "int \<Rightarrow> string" where
  "variation_suffix i =
     (if i > 1 then variation_hints ! nat ((i - 2) mod int (length variation_hints)) else [])"

definition variation_filename :: "int \<Rightarrow> string" where
  "variation_filename i = ''v'' @ fmt_02d i @ ''.png''"

text \<open>\<^verbatim>\<open>output_path = output_dir / filename\<close> for the index \<open>i\<close>.\<close>

definition variation_path :: "path \<Rightarrow> int \<Rightarrow> path" where
  "variation_path output_dir i = path_div output_dir (variation_filename i)"

text \<open>The truth value of an \<^verbatim>\<open>Optional[bytes]\<close>: \<^verbatim>\<open>None\<close> and the empty bytes are false.\<close>

definition truthy :: "bytes option \<Rightarrow> bool" where
  "truthy ob = (case ob of None \<Rightarrow> False | Some b \<Rightarrow> b \<noteq> [])"

text \<open>
  One iteration of the loop of \<^verbatim>\<open>run_concept\<close>, for the index \<open>i\<close>; it returns the new
  \<^verbatim>\<open>success_count\<close>.
\<close>

definition run_variation ::
  "env \<Rightarrow> concept \<Rightarrow> string \<Rightarrow> path \<Rightarrow> int \<Rightarrow> string \<Rightarrow> string \<Rightarrow> int \<Rightarrow> int \<Rightarrow> world
     \<Rightarrow> int result" where
  "run_variation E c api_key output_dir variations quality sz i success_count w =
     (let filename = variation_filename i;
          output_path = variation_path output_dir i
      in if path_exists w output_path then
           (Inr (success_count + 1),
            print (nl @ ''  ['' @ str_int i @ ''/'' @ str_int variations
                     @ ''] Skipping (already exists): '' @ filename) w)
         else
           (let w1 = print (nl @ ''  ['' @ str_int i @ ''/'' @ str_int variations
                              @ ''] Generating '' @ filename @ ''...'') w;
                p = prompt c @ variation_suffix i
            in case generate_image E api_key p sz quality w1 of
                 (Inl e, w2) \<Rightarrow> (Inl e, w2)
               | (Inr image_bytes, w2) \<Rightarrow>
                   (case (if truthy image_bytes then
                            (case save_image E (the image_bytes) output_path w2 of
                               (Inl e, w3) \<Rightarrow> (Inl e, w3)
                             | (Inr u, w3) \<Rightarrow> (Inr (success_count + 1), w3))
                          else
                            (Inr success_count, print (''  FAILED to generate '' @ filename) w2)) of
                      (Inl e, w4) \<Rightarrow> (Inl e, w4)
                    | (Inr n, w4) \<Rightarrow> (Inr n, if i < variations then sleep 1000 w4 else w4))))"

fun variations_loop ::
  "env \<Rightarrow> concept \<Rightarrow> string \<Rightarrow> path \<Rightarrow> int \<Rightarrow> string \<Rightarrow> string \<Rightarrow> int list \<Rightarrow> int \<Rightarrow> world
     \<Rightarrow> int result" where
  "variations_loop E c api_key output_dir variations quality sz [] success_count w =
     (Inr success_count, w)"
| "variations_loop E c api_key output_dir variations quality sz (i # is) success_count w =
     (case run_variation E c api_key output_dir variations quality sz i success_count w of
        (Inl e, w') \<Rightarrow> (Inl e, w')
      | (Inr n, w') \<Rightarrow> variations_loop E c api_key output_dir variations quality sz is n w')"

definition run_concept ::
  "(int \<times> concept) list \<Rightarrow> env \<Rightarrow> string \<Rightarrow> int \<Rightarrow> int \<Rightarrow> string \<Rightarrow> string \<Rightarrow> path \<Rightarrow> world
     \<Rightarrow> int result" where
  "run_concept prompts E api_key concept_id variations quality sz base_dir w =
     (case map_of prompts concept_id of
        None \<Rightarrow> (Inl KeyError, w)
      | Some c \<Rightarrow>
     (case map_of CONCEPT_DIRS concept_id of
        None \<Rightarrow> (Inl KeyError, w)
      | Some d \<Rightarrow>
     (let output_dir = path_div base_dir d;
          w1 = mkdir output_dir w;
          w2 = print (nl @ rule60) w1;
          w3 = print (''Concept '' @ str_int concept_id @ '': '' @ name c) w2;
          w4 = print (''Output: '' @ path_str output_dir) w3;
          w5 = print (''Generating '' @ str_int variations @ '' variation(s)...'') w4;
          w6 = print rule60 w5
      in variations_loop E c api_key output_dir variations quality sz [1..variations] 0 w6)))"

text \<open>
  \<^verbatim>\<open>main\<close> of \<^verbatim>\<open>generate_logo.py\<close> from the parsed arguments on. The loop over the selected
  concepts returns \<^verbatim>\<open>(total_success, total_attempted)\<close>.
\<close>

record args =
  arg_concept :: "int option"
  arg_all :: bool
  arg_variations :: int
  arg_quality :: string
  arg_size :: string
  arg_list :: bool

fun concepts_loop ::
  "(int \<times> concept) list \<Rightarrow> env \<Rightarrow> string \<Rightarrow> args \<Rightarrow> path \<Rightarrow> int list \<Rightarrow> int \<times> int \<Rightarrow> world
     \<Rightarrow> (int \<times> int) result" where
  "concepts_loop prompts E api_key a base_dir [] totals w = (Inr totals, w)"
| "concepts_loop prompts E api_key a base_dir (cid # cids) totals w =
     (case run_concept prompts E api_key cid (arg_variations a) (arg_quality a) (arg_size a)
             base_dir w of
        (Inl e, w') \<Rightarrow> (Inl e, w')
      | (Inr n, w') \<Rightarrow>
          concepts_loop prompts E api_key a base_dir cids
            (fst totals + n, snd totals + arg_variations a) w')"

fun list_concepts :: "(int \<times> concept) list \<Rightarrow> world \<Rightarrow> unit result" where
  "list_concepts [] w = (Inr (), w)"
| "list_concepts ((cid, c) # rest) w =
     (let w1 = print (nl @ ''Concept '' @ str_int cid @ '': '' @ name c) w
      in case map_of CONCEPT_DIRS cid of
           None \<Rightarrow> (Inl KeyError, w1)
         | Some d \<Rightarrow>
             list_concepts rest
               (print (''  '' @ take 200 (prompt c) @ ''...'')
                 (print (''  Prompt ('' @ str_nat (length (prompt c)) @ '' chars):'')
                   (print (''  Dir: '' @ d) w1))))"

text \<open>
  \<open>help\<close> is the text argparse prints for \<^verbatim>\<open>parser.print_help()\<close>; \<open>environ_key\<close> is
  \<^verbatim>\<open>os.environ.get("OPENAI_API_KEY")\<close>; \<open>base_dir\<close> is the script's directory.
\<close>

definition main ::
  "(int \<times> concept) list \<Rightarrow> env \<Rightarrow> string \<Rightarrow> string option \<Rightarrow> args \<Rightarrow> path \<Rightarrow> world
     \<Rightarrow> unit result" where
  "main prompts E help environ_key a base_dir w =
     (if arg_list a then list_concepts prompts w
      else if (arg_concept a = None \<or> arg_concept a = Some 0) \<and> \<not> arg_all a then
        (Inl (SystemExit 1), print (nl @ ''Error: specify --concept N or --all'') (print help w))
      else if environ_key = None \<or> environ_key = Some [] then
        (Inl (SystemExit 1),
         print ''Usage: OPENAI_API_KEY='sk-...' python3 generate_logo.py --concept 1''
           (print ''Error: OPENAI_API_KEY environment variable not set'' w))
      else
        (let concepts_to_run = (if arg_all a then [1, 2, 3, 4] else [the (arg_concept a)])
         in case concepts_loop prompts E (the environ_key) a base_dir concepts_to_run (0, 0) w of
              (Inl e, w') \<Rightarrow> (Inl e, w')
            | (Inr (total_success, total_attempted), w') \<Rightarrow>
                (Inr (),
                 print rule60
                   (print (''DONE: '' @ str_int total_success @ ''/'' @ str_int total_attempted
                            @ '' images generated successfully'')
                     (print (nl @ rule60) w')))))"

section \<open>The batch runner of \<^verbatim>\<open>generate_round3.py\<close>\<close>

definition PROMPT_KEYS :: "string list" where
  "PROMPT_KEYS =
     [''r3-01-brick-wordmark'', ''r3-02-brick-monogram'', ''r3-03-brick-minimal-B'',
      ''r3-04-brick-stamp'', ''r3-05-home-editorial'', ''r3-06-home-mixed-type'',
      ''r3-07-home-house-icon'', ''r3-08-home-stacked'', ''r3-09-clay-seal'',
      ''r3-10-clay-earthy'', ''r3-11-clay-terre'', ''r3-12-clay-arch'',
      ''r3-13-nature-simple-v'', ''r3-14-nature-golden-oak'', ''r3-15-nature-bird'',
      ''r3-16-nature-botanical'', ''r3-17-hybrid-terra'', ''r3-18-hybrid-crest'',
      ''r3-19-hybrid-land'', ''r3-20-hybrid-dual-tone'', ''r3-21-type-condensed'',
      ''r3-22-type-italic'', ''r3-23-type-ampersand'', ''r3-24-type-sans'']"

text \<open>The table \<^verbatim>\<open>PROMPTS\<close>: the keys in source order, each with its prompt text.\<close>

definition PROMPTS :: "(string \<Rightarrow> string) \<Rightarrow> (string \<times> string) list" where
  "PROMPTS texts = map (\<lambda>k. (k, texts k)) PROMPT_KEYS"

text \<open>
  One iteration of the loop of \<^verbatim>\<open>main\<close> over \<^verbatim>\<open>enumerate(keys_to_run, 1)\<close>; the call of
  \<^verbatim>\<open>generate_image\<close> uses the default size and quality.
\<close>

text \<open>\<^verbatim>\<open>output_path = OUTPUT_DIR / f"{key}.png"\<close>\<close>

definition key_path :: "path \<Rightarrow> string \<Rightarrow> path" where
  "key_path output_dir key = path_div output_dir (key @ ''.png'')"

definition r3_iteration ::
  "(string \<times> string) list \<Rightarrow> env \<Rightarrow> string \<Rightarrow> path \<Rightarrow> int \<Rightarrow> int \<Rightarrow> string \<Rightarrow> int \<Rightarrow> world
     \<Rightarrow> int result" where
  "r3_iteration prompts E api_key output_dir total_n i key success w =
     (let filename = key @ ''.png'';
          output_path = key_path output_dir key
      in if path_exists w output_path then
           (Inr (success + 1),
            print (nl @ ''['' @ str_int i @ ''/'' @ str_int total_n @ ''] SKIP (exists): '' @ filename) w)
         else
           (let w1 = print rule60
                       (print (''['' @ str_int i @ ''/'' @ str_int total_n @ ''] Generating: '' @ key)
                         (print (nl @ rule60) w))
            in case map_of prompts key of
                 None \<Rightarrow> (Inl KeyError, w1)
               | Some p \<Rightarrow>
            (case generate_image_r3 E api_key p ''1024x1024'' ''high'' w1 of
               (Inl e, w2) \<Rightarrow> (Inl e, w2)
             | (Inr image_bytes, w2) \<Rightarrow>
                 (case (if truthy image_bytes then
                          (let w3 = write_file output_path (the image_bytes)
                                      (mkdir (path_parent output_path) w2)
                           in case image_open E (the image_bytes) of
                                None \<Rightarrow> (Inl UnidentifiedImageError, w3)
                              | Some (wd, ht) \<Rightarrow>
                                  (Inr (success + 1),
                                   print (''  Saved: '' @ path_str output_path @ '' ('' @ str_nat wd
                                            @ ''x'' @ str_nat ht @ '')'') w3))
                        else (Inr success, print (''  FAILED: '' @ key) w2)) of
                    (Inl e, w4) \<Rightarrow> (Inl e, w4)
                  | (Inr n, w4) \<Rightarrow> (Inr n, if i < total_n then sleep 1500 w4 else w4)))))"

fun r3_loop ::
  "(string \<times> string) list \<Rightarrow> env \<Rightarrow> string \<Rightarrow> path \<Rightarrow> int \<Rightarrow> int \<Rightarrow> string list \<Rightarrow> int \<Rightarrow> world
     \<Rightarrow> int result" where
  "r3_loop prompts E api_key output_dir total_n i [] success w = (Inr success, w)"
| "r3_loop prompts E api_key output_dir total_n i (key # keys) success w =
     (case r3_iteration prompts E api_key output_dir total_n i key success w of
        (Inl e, w') \<Rightarrow> (Inl e, w')
      | (Inr n, w') \<Rightarrow> r3_loop prompts E api_key output_dir total_n (i + 1) keys n w')"

text \<open>\<^verbatim>\<open>keys_to_run\<close>: every key, or for each argument in turn the keys that contain it.\<close>

definition keys_to_run :: "(string \<times> string) list \<Rightarrow> string list \<Rightarrow> string list" where
  "keys_to_run prompts argv =
     (if length argv > 1 then
        concat (map (\<lambda>arg. filter (\<lambda>k. sublist arg k) (map fst prompts)) (tl argv))
      else map fst prompts)"

text \<open>
  \<^verbatim>\<open>main\<close> of \<^verbatim>\<open>generate_round3.py\<close>; it returns \<^verbatim>\<open>(success, total)\<close>, the two numbers of
  its last report. \<open>OUTPUT_DIR\<close> is \<^verbatim>\<open>concepts/round3\<close> under the script's directory.
\<close>

definition OUTPUT_DIR :: "path \<Rightarrow> path" where
  "OUTPUT_DIR script_dir = path_div (path_div script_dir ''concepts'') ''round3''"

definition main_r3 ::
  "(string \<times> string) list \<Rightarrow> env \<Rightarrow> string option \<Rightarrow> string list \<Rightarrow> path \<Rightarrow> world
     \<Rightarrow> (int \<times> int) result" where
  "main_r3 prompts E environ_key argv script_dir w =
     (if environ_key = None \<or> environ_key = Some [] then
        (Inl (SystemExit 1), print ''Error: OPENAI_API_KEY not set'' w)
      else
        (let w1 = mkdir (OUTPUT_DIR script_dir) w;
             keys = keys_to_run prompts argv;
             total_n = int (length keys)
         in case r3_loop prompts E (the environ_key) (OUTPUT_DIR script_dir) total_n 1 keys 0 w1 of
              (Inl e, w') \<Rightarrow> (Inl e, w')
            | (Inr success, w') \<Rightarrow>
                (Inr (success, total_n),
                 print rule60
                   (print (''Output: '' @ path_str (OUTPUT_DIR script_dir))
                     (print (''DONE: '' @ str_int success @ ''/'' @ str_int total_n @ '' logos generated'')
                       (print (nl @ rule60) w'))))))"

section \<open>Observations on traces\<close>

fun is_print :: "event \<Rightarrow> bool" where
  "is_print (Print s) = True"
| "is_print e = False"

fun is_call :: "event \<Rightarrow> bool" where
  "is_call (NetCall r) = True"
| "is_call e = False"

fun is_post :: "event \<Rightarrow> bool" where
  "is_post (NetCall (POST u h p t)) = True"
| "is_post e = False"

fun is_sleep :: "event \<Rightarrow> bool" where
  "is_sleep (Sleep ms) = True"
| "is_sleep e = False"

text \<open>The events of a run that started in \<open>w\<close> and ended in \<open>w'\<close>.\<close>

definition events_since :: "world \<Rightarrow> world \<Rightarrow> event list" where
  "events_since w w' = drop (length (trace w)) (trace w')"

text \<open>
  Names for what \<^verbatim>\<open>generate_image\<close> sends and logs: the headers, the request to the primary
  model, the request to the fallback model after the three mutations of the payload, the
  log lines, and the world after a network call.
\<close>

definition auth_headers :: "string \<Rightarrow> (string \<times> string) list" where
  "auth_headers api_key = [(''Authorization'', ''Bearer '' @ api_key)]"

definition primary_request :: "gen_cfg \<Rightarrow> string \<Rightarrow> string \<Rightarrow> string \<Rightarrow> string \<Rightarrow> request" where
  "primary_request C api_key p sz quality =
     POST API_URL (auth_headers api_key) (primary_payload C p sz quality) (post_timeout C)"

definition fallback_request :: "gen_cfg \<Rightarrow> string \<Rightarrow> string \<Rightarrow> string \<Rightarrow> string \<Rightarrow> request" where
  "fallback_request C api_key p sz quality =
     POST API_URL (auth_headers api_key) (fallback_payload C (primary_payload C p sz quality))
       (post_timeout C)"

definition calling_line :: "gen_cfg \<Rightarrow> string \<Rightarrow> string \<Rightarrow> string" where
  "calling_line C sz quality = ''  Calling '' @ MODEL C @ '' ('' @ sz @ '', '' @ quality @ '')...''"

definition api_error_line :: "response \<Rightarrow> string" where
  "api_error_line r = ''  API error ('' @ str_nat (status_code r) @ ''): '' @ take 300 (resp_text r)"

definition trying_line :: "gen_cfg \<Rightarrow> string" where
  "trying_line C = msg_trying C @ FALLBACK_MODEL C @ ''...''"

definition fallback_failed_line :: "gen_cfg \<Rightarrow> response \<Rightarrow> string" where
  "fallback_failed_line C r =
     msg_fallback_failed C @ str_nat (status_code r) @ ''): '' @ take 300 (resp_text r)"

definition after_call :: "request \<Rightarrow> world \<Rightarrow> world" where
  "after_call req w = (emit (NetCall req) w)\<lparr>ncalls := Suc (ncalls w)\<rparr>"

text \<open>Sample environments and worlds, for evaluating the scripts on concrete inputs.\<close>

definition empty_world :: world where
  "empty_world = \<lparr>trace = [], ncalls = 0, files = Map.empty, dirs = {}\<rparr>"

definition error_response :: response where
  "error_response =
     \<lparr>status_code = 500, resp_text = ''Internal Server Error'', resp_json = None, resp_content = []\<rparr>"


definition image_response :: response where
  "image_response =
     \<lparr>status_code = 200, resp_text = ''OK'',
      resp_json = Some (JObj [(''data'', JArr [JObj [(''b64_json'', JStr ''iVBORw=='')]])]),
      resp_content = []\<rparr>"

text \<open>
  \<open>env_always out\<close>: every network call has the outcome \<open>out\<close>; the base64 text
  \<^verbatim>\<open>iVBORw==\<close> decodes to the four bytes 89 50 4E 47, which open as a 1024x1024 image.
\<close>

definition env_always :: "net_outcome \<Rightarrow> env" where
  "env_always out =
     \<lparr>net = (\<lambda>n req. out),
      b64decode = (\<lambda>s. if s = ''iVBORw=='' then Some [0x89, 0x50, 0x4E, 0x47] else None),
      image_open = (\<lambda>b. if b = [0x89, 0x50, 0x4E, 0x47] then Some (1024, 1024) else None)\<rparr>"

definition env_corrupt :: env where
  "env_corrupt =
     \<lparr>net = (\<lambda>n req. Responds image_response),
      b64decode = (\<lambda>s. Some [0x00]),
      image_open = (\<lambda>b. None)\<rparr>"

text \<open>Names for the log lines and the steps of the two batch loops.\<close>

definition skip_line :: "int \<Rightarrow> int \<Rightarrow> string" where
  "skip_line i variations =
     nl @ ''  ['' @ str_int i @ ''/'' @ str_int variations @ ''] Skipping (already exists): ''
       @ variation_filename i"

definition generating_line :: "int \<Rightarrow> int \<Rightarrow> string" where
  "generating_line i variations =
     nl @ ''  ['' @ str_int i @ ''/'' @ str_int variations @ ''] Generating ''
       @ variation_filename i @ ''...''"

definition failed_line :: "int \<Rightarrow> string" where
  "failed_line i = ''  FAILED to generate '' @ variation_filename i"

definition saved_line :: "path \<Rightarrow> nat \<Rightarrow> nat \<Rightarrow> string" where
  "saved_line p wd ht =
     ''  Saved: '' @ path_str p @ '' ('' @ str_nat wd @ ''x'' @ str_nat ht @ '')''"

definition r3_skip_line :: "int \<Rightarrow> int \<Rightarrow> string \<Rightarrow> string" where
  "r3_skip_line total_n i key =
     nl @ ''['' @ str_int i @ ''/'' @ str_int total_n @ ''] SKIP (exists): '' @ key @ ''.png''"

definition r3_banner :: "int \<Rightarrow> int \<Rightarrow> string \<Rightarrow> world \<Rightarrow> world" where
  "r3_banner total_n i key w =
     print rule60
       (print (''['' @ str_int i @ ''/'' @ str_int total_n @ ''] Generating: '' @ key)
         (print (nl @ rule60) w))"

text \<open>The pause at the end of an iteration that called the requestor.\<close>

definition pace :: "nat \<Rightarrow> int \<Rightarrow> int \<Rightarrow> world \<Rightarrow> world" where
  "pace ms i n w = (if i < n then sleep ms w else w)"

text \<open>Creating the parent directory and writing the file.\<close>

definition persisted :: "path \<Rightarrow> bytes \<Rightarrow> world \<Rightarrow> world" where
  "persisted p b w = write_file p b (mkdir (path_parent p) w)"

text \<open>
  An environment in which every request is answered with a 2xx status and a body whose first
  item carries a base64 payload that decodes to non-empty bytes which open as an image.
\<close>

definition delivers :: "env \<Rightarrow> response \<Rightarrow> bytes \<Rightarrow> bool" where
  "delivers E r b \<longleftrightarrow>
     is_success r \<and> b \<noteq> [] \<and> image_open E b \<noteq> None
     \<and> (\<exists>obj item items s64.
          resp_json r = Some (JObj obj) \<and> map_of obj ''data'' = Some (JArr (JObj item # items))
          \<and> map_of item ''b64_json'' = Some (JStr s64) \<and> b64decode E s64 = Some b)"

definition always_delivers :: "env \<Rightarrow> bool" where
  "always_delivers E \<longleftrightarrow> (\<forall>n req. \<exists>r b. net E n req = Responds r \<and> delivers E r b)"

text \<open>The state in which the loop of \<^verbatim>\<open>run_concept\<close> starts: the directory made, the header logged.\<close>

definition concept_start :: "int \<Rightarrow> concept \<Rightarrow> path \<Rightarrow> int \<Rightarrow> world \<Rightarrow> world" where
  "concept_start cid c output_dir variations w =
     print rule60
       (print (''Generating '' @ str_int variations @ '' variation(s)...'')
         (print (''Output: '' @ path_str output_dir)
           (print (''Concept '' @ str_int cid @ '': '' @ name c)
             (print (nl @ rule60) (mkdir output_dir w)))))"

text \<open>A file system that holds one file and nothing else.\<close>

definition world_with :: "path \<Rightarrow> bytes \<Rightarrow> world" where
  "world_with p b = \<lparr>trace = [], ncalls = 0, files = [p \<mapsto> b], dirs = {}\<rparr>"

text \<open>Prompt texts for sample runs: every concept has the prompt \<^verbatim>\<open>P\<close>.\<close>

definition sample_texts :: "int \<Rightarrow> string" where
  "sample_texts i = ''P''"

text \<open>The network calls and pauses of a trace, in order.\<close>

definition pacing_events :: "event list \<Rightarrow> event list" where
  "pacing_events evs = filter (\<lambda>e. is_call e \<or> is_sleep e) evs"

text \<open>
  Every pause in the events lasts \<open>d\<close> milliseconds and comes after a network call of the
  same events.
\<close>

definition pauses_after_calls :: "nat \<Rightarrow> event list \<Rightarrow> bool" where
  "pauses_after_calls d evs \<longleftrightarrow>
     (\<forall>pre ms post. evs = pre @ Sleep ms # post \<longrightarrow> ms = d \<and> (\<exists>e\<in>set pre. is_call e))"

text \<open>The arguments \<^verbatim>\<open>--concept 1 --variations 2\<close>, the other options at their defaults.\<close>

definition sample_args :: args where
  "sample_args =
     \<lparr>arg_concept = Some 1, arg_all = False, arg_variations = 2, arg_quality = ''high'',
      arg_size = ''1024x1024'', arg_list = False\<rparr>"

section \<open>Formatting and paths: auxiliary facts\<close>

subsection \<open>Decimal numerals\<close>

lemma digit_char_cases:
  assumes "d < 10"
  shows "d = 0 \<or> d = 1 \<or> d = 2 \<or> d = 3 \<or> d = 4 \<or> d = 5 \<or> d = 6 \<or> d = 7 \<or> d = 8 \<or> d = (9::nat)"
  using assms by arith

lemma digit_char_code:
  assumes "d < 10"
  shows "(of_char (digit_char d) :: nat) = 48 + d"
  using digit_char_cases [OF assms] by (elim disjE) (simp_all add: digit_char_def)

lemma digit_char_inj:
  assumes "a < 10" "b < 10" "digit_char a = digit_char b"
  shows "a = b"
proof -
  have "(of_char (digit_char a) :: nat) = of_char (digit_char b)"
    using assms(3) by (rule arg_cong)
  then have "48 + a = 48 + b"
    by (simp only: digit_char_code [OF assms(1)] digit_char_code [OF assms(2)])
  then show ?thesis by simp
qed

lemma digit_char_in:
  assumes "d < 10"
  shows "digit_char d \<in> set ''0123456789''"
  using digit_char_cases [OF assms] by (elim disjE) (simp_all add: digit_char_def)

lemma str_nat_small: "n < 10 \<Longrightarrow> str_nat n = [digit_char n]"
  by (simp add: str_nat.simps)

lemma str_nat_big: "10 \<le> n \<Longrightarrow> str_nat n = str_nat (n div 10) @ [digit_char (n mod 10)]"
  by (subst str_nat.simps) simp

lemma str_nat_digits: "set (str_nat n) \<subseteq> set ''0123456789''"
proof (induction n rule: str_nat.induct)
  case (1 n)
  show ?case
  proof (cases "n < 10")
    case True
    then show ?thesis using digit_char_in [of n] by (simp add: str_nat_small [OF True])
  next
    case False
    then have big: "10 \<le> n" by simp
    have "set (str_nat (n div 10)) \<subseteq> set ''0123456789''" using 1 False by simp
    moreover have "digit_char (n mod 10) \<in> set ''0123456789''" by (rule digit_char_in) simp
    ultimately show ?thesis by (simp add: str_nat_big [OF big])
  qed
qed

lemma str_nat_nonempty: "str_nat n \<noteq> []"
  by (subst str_nat.simps) simp

lemma str_nat_length_big:
  assumes "10 \<le> n"
  shows "2 \<le> length (str_nat n)"
proof -
  have "str_nat (n div 10) \<noteq> []" by (rule str_nat_nonempty)
  then have "1 \<le> length (str_nat (n div 10))" by (cases "str_nat (n div 10)") simp_all
  then show ?thesis by (simp add: str_nat_big [OF assms])
qed

lemma str_nat_inj: "str_nat m = str_nat n \<Longrightarrow> m = n"
proof (induction m arbitrary: n rule: str_nat.induct)
  case (1 m)
  have len: "length (str_nat m) = length (str_nat n)" using 1(2) by simp
  show ?case
  proof (cases "m < 10")
    case m: True
    show ?thesis
    proof (cases "n < 10")
      case True
      have "[digit_char m] = [digit_char n]"
        using 1(2) by (simp only: str_nat_small [OF m] str_nat_small [OF True])
      then show ?thesis using digit_char_inj [OF m True] by simp
    next
      case False
      then have "2 \<le> length (str_nat n)" by (intro str_nat_length_big) simp
      then show ?thesis using len by (simp add: str_nat_small [OF m])
    qed
  next
    case m: False
    then have mbig: "10 \<le> m" by simp
    show ?thesis
    proof (cases "n < 10")
      case True
      have "2 \<le> length (str_nat m)" by (rule str_nat_length_big [OF mbig])
      then show ?thesis using len by (simp add: str_nat_small [OF True])
    next
      case False
      then have nbig: "10 \<le> n" by simp
      have "str_nat (m div 10) @ [digit_char (m mod 10)] = str_nat (n div 10) @ [digit_char (n mod 10)]"
        using 1(2) by (simp only: str_nat_big [OF mbig] str_nat_big [OF nbig])
      then have eqs: "str_nat (m div 10) = str_nat (n div 10)" "digit_char (m mod 10) = digit_char (n mod 10)"
        by simp_all
      have "m div 10 = n div 10" using 1(1) [OF m eqs(1)] .
      moreover have "m mod 10 = n mod 10" by (rule digit_char_inj [OF _ _ eqs(2)]) simp_all
      ultimately show ?thesis by (metis div_mult_mod_eq)
    qed
  qed
qed

lemma str_nat_two:
  assumes "10 \<le> n" "n < 100"
  shows "str_nat n = [digit_char (n div 10), digit_char (n mod 10)]"
proof -
  have "n div 10 < 10" using assms by simp
  then have "str_nat (n div 10) = [digit_char (n div 10)]" by (rule str_nat_small)
  then show ?thesis by (simp add: str_nat_big [OF assms(1)])
qed

lemma str_nat_length_huge:
  assumes "100 \<le> n"
  shows "3 \<le> length (str_nat n)"
proof -
  have "10 \<le> n" "10 \<le> n div 10" using assms by simp_all
  then have "2 \<le> length (str_nat (n div 10))" by (intro str_nat_length_big)
  then show ?thesis by (simp add: str_nat_big [OF \<open>10 \<le> n\<close>])
qed

lemma fmt_02d_one:
  assumes "0 \<le> i" "i < 10"
  shows "fmt_02d i = [CHR ''0'', digit_char (nat i)]"
proof -
  have "nat i < 10" using assms by simp
  then have "str_nat (nat i) = [digit_char (nat i)]" by (rule str_nat_small)
  then show ?thesis using assms by (simp add: fmt_02d_def)
qed

lemma fmt_02d_two:
  assumes "10 \<le> i" "i < 100"
  shows "fmt_02d i = [digit_char (nat i div 10), digit_char (nat i mod 10)]"
proof -
  have "10 \<le> nat i" "nat i < 100" using assms by simp_all
  then have "str_nat (nat i) = [digit_char (nat i div 10), digit_char (nat i mod 10)]"
    by (rule str_nat_two)
  then show ?thesis using assms by (simp add: fmt_02d_def)
qed

lemma fmt_02d_big:
  assumes "10 \<le> i"
  shows "fmt_02d i = str_nat (nat i)"
proof -
  have "2 \<le> length (str_nat (nat i))" by (rule str_nat_length_big) (use assms in simp)
  then show ?thesis using assms by (simp add: fmt_02d_def)
qed

lemma fmt_02d_neg: "i < 0 \<Longrightarrow> fmt_02d i = CHR ''-'' # str_nat (nat (- i))"
  by (simp add: fmt_02d_def str_int_def)

lemma digit_char_zero:
  assumes "d < 10" "digit_char d = CHR ''0''"
  shows "d = 0"
proof -
  have "digit_char 0 = CHR ''0''" by (simp add: digit_char_def)
  then have "digit_char d = digit_char 0" using assms(2) by simp
  then show ?thesis using digit_char_inj [of d 0] assms(1) by simp
qed

lemma str_nat_no_slash: "CHR ''/'' \<notin> set (str_nat n)"
proof
  assume "CHR ''/'' \<in> set (str_nat n)"
  then have "CHR ''/'' \<in> set ''0123456789''" using str_nat_digits by blast
  then show False by simp
qed

lemma str_nat_no_minus: "CHR ''-'' \<notin> set (str_nat n)"
proof
  assume "CHR ''-'' \<in> set (str_nat n)"
  then have "CHR ''-'' \<in> set ''0123456789''" using str_nat_digits by blast
  then show False by simp
qed

lemma fmt_02d_no_slash: "CHR ''/'' \<notin> set (fmt_02d i)"
  using str_nat_no_slash [of "nat i"] str_nat_no_slash [of "nat (- i)"]
  by (simp add: fmt_02d_def str_int_def set_replicate_conv_if)

lemma fmt_02d_nonneg_no_minus: "0 \<le> i \<Longrightarrow> CHR ''-'' \<notin> set (fmt_02d i)"
  using str_nat_no_minus [of "nat i"] by (simp add: fmt_02d_def set_replicate_conv_if)

lemma fmt_02d_inj: "fmt_02d i = fmt_02d j \<Longrightarrow> i = j"
proof -
  assume eq: "fmt_02d i = fmt_02d j"
  have nonneg: "a = b" if "0 \<le> a" "0 \<le> b" "a \<le> b" "fmt_02d a = fmt_02d b" for a b :: int
  proof -
    consider "b < 10" | "a < 10" "10 \<le> b" | "10 \<le> a" using that by linarith
    then show ?thesis
    proof cases
      case 1
      then have "digit_char (nat a) = digit_char (nat b)"
        using that by (simp add: fmt_02d_one)
      then have "nat a = nat b" using 1 that by (intro digit_char_inj) simp_all
      then show ?thesis using that by simp
    next
      case 2
      show ?thesis
      proof (cases "b < 100")
        case True
        then have "digit_char (nat b div 10) = CHR ''0''"
          using 2 that by (simp add: fmt_02d_one fmt_02d_two)
        then have "nat b div 10 = 0" using True 2 by (intro digit_char_zero) simp_all
        then show ?thesis using 2 by simp
      next
        case False
        then have "3 \<le> length (fmt_02d b)" using str_nat_length_huge [of "nat b"] by (simp add: fmt_02d_big)
        moreover have "length (fmt_02d a) = 2" using 2 that(1) by (simp add: fmt_02d_one)
        ultimately show ?thesis using that(4) by simp
      qed
    next
      case 3
      then have "str_nat (nat a) = str_nat (nat b)" using that by (simp add: fmt_02d_big)
      then have "nat a = nat b" by (rule str_nat_inj)
      then show ?thesis using that by simp
    qed
  qed
  consider "i < 0" "j < 0" | "i < 0" "0 \<le> j" | "0 \<le> i" "j < 0" | "0 \<le> i" "0 \<le> j" by linarith
  then show ?thesis
  proof cases
    case 1
    then have "str_nat (nat (- i)) = str_nat (nat (- j))" using eq by (simp add: fmt_02d_neg)
    then have "nat (- i) = nat (- j)" by (rule str_nat_inj)
    then show ?thesis using 1 by simp
  next
    case 2
    then have "CHR ''-'' \<in> set (fmt_02d i)" by (simp add: fmt_02d_neg)
    then show ?thesis using fmt_02d_nonneg_no_minus [OF 2(2)] by (simp only: eq)
  next
    case 3
    then have "CHR ''-'' \<in> set (fmt_02d j)" by (simp add: fmt_02d_neg)
    then show ?thesis using fmt_02d_nonneg_no_minus [OF 3(1)] by (simp only: eq [symmetric])
  next
    case 4
    show ?thesis
    proof (cases "i \<le> j")
      case True
      then show ?thesis by (rule nonneg [OF 4(1) 4(2) _ eq])
    next
      case False
      then have "j \<le> i" by simp
      then have "j = i" by (rule nonneg [OF 4(2) 4(1) _ eq [symmetric]])
      then show ?thesis by simp
    qed
  qed
qed

subsection \<open>Paths\<close>

lemma split_on_absent: "c \<notin> set s \<Longrightarrow> split_on c s = [s]"
  by (induction s) auto

lemma path_div_single:
  "CHR ''/'' \<notin> set s \<Longrightarrow> s \<noteq> [] \<Longrightarrow> s \<noteq> ''.'' \<Longrightarrow> path_div p s = p @ [s]"
proof -
  assume a: "CHR ''/'' \<notin> set s" "s \<noteq> []" "s \<noteq> ''.''"
  have "segments s = [s]" using a by (simp add: segments_def split_on_absent)
  moreover obtain c cs where "s = c # cs" "c \<noteq> CHR ''/''" using a by (cases s) auto
  ultimately show ?thesis by (simp add: path_div_def)
qed

lemma variation_filename_no_slash: "CHR ''/'' \<notin> set (variation_filename i)"
  using fmt_02d_no_slash [of i] by (simp add: variation_filename_def)

lemma variation_path_parts: "variation_path d i = d @ [variation_filename i]"
  unfolding variation_path_def
  by (rule path_div_single) (simp_all add: variation_filename_no_slash, simp_all add: variation_filename_def)

lemma variation_filename_inj: "variation_filename i = variation_filename j \<Longrightarrow> i = j"
  by (rule fmt_02d_inj) (simp add: variation_filename_def)

lemma key_path_parts: "CHR ''/'' \<notin> set k \<Longrightarrow> key_path d k = d @ [k @ ''.png'']"
  unfolding key_path_def by (rule path_div_single) simp_all

lemma concept_dirs_cases:
  assumes "map_of CONCEPT_DIRS cid = Some d"
  shows "(cid = 1 \<and> d = ''concepts/01-kiln-mark'') \<or> (cid = 2 \<and> d = ''concepts/02-earthen-strata'')
       \<or> (cid = 3 \<and> d = ''concepts/03-winding-path'') \<or> (cid = 4 \<and> d = ''concepts/04-vermillion-leaf'')"
  using assms by (simp add: CONCEPT_DIRS_def split: if_splits)

lemma segments_concept_dirs:
  "segments ''concepts/01-kiln-mark'' = [''concepts'', ''01-kiln-mark'']"
  "segments ''concepts/02-earthen-strata'' = [''concepts'', ''02-earthen-strata'']"
  "segments ''concepts/03-winding-path'' = [''concepts'', ''03-winding-path'']"
  "segments ''concepts/04-vermillion-leaf'' = [''concepts'', ''04-vermillion-leaf'']"
  by (simp_all add: segments_def)

lemma concept_dir_div:
  assumes "map_of CONCEPT_DIRS cid = Some d"
  shows "path_div b d = b @ segments d"
  using concept_dirs_cases [OF assms] by (elim disjE conjE) (simp_all add: path_div_def)

lemma concept_dir_segments_inj:
  assumes "map_of CONCEPT_DIRS c1 = Some d1" "map_of CONCEPT_DIRS c2 = Some d2"
    and "segments d1 = segments d2"
  shows "c1 = c2"
  using concept_dirs_cases [OF assms(1)] concept_dirs_cases [OF assms(2)] assms(3)
  by (elim disjE conjE) (simp_all add: segments_concept_dirs)

lemma concept_dir_segments_length:
  assumes "map_of CONCEPT_DIRS cid = Some d"
  shows "length (segments d) = 2"
  using concept_dirs_cases [OF assms] by (elim disjE conjE) (simp_all add: segments_concept_dirs)

lemma prompt_keys_no_slash: "k \<in> set PROMPT_KEYS \<Longrightarrow> CHR ''/'' \<notin> set k"
  unfolding PROMPT_KEYS_def by (elim rev_mp) simp

lemma join_slash_snoc: "xs \<noteq> [] \<Longrightarrow> join_slash (xs @ [y]) = join_slash xs @ ''/'' @ y"
  by (induction xs rule: join_slash.induct) simp_all

lemma path_str_snoc:
  "p \<noteq> [] \<Longrightarrow> p \<noteq> [''/''] \<Longrightarrow> path_str (p @ [y]) = path_str p @ ''/'' @ y"
proof -
  assume a: "p \<noteq> []" "p \<noteq> [''/'']"
  then obtain q qs where p: "p = q # qs" by (cases p) auto
  show ?thesis
  proof (cases "q = ''/''")
    case True
    then have "qs \<noteq> []" using a p by simp
    then show ?thesis using True p join_slash_snoc [of qs y] by (simp add: path_str_def)
  next
    case False
    then show ?thesis using p join_slash_snoc [of "q # qs" y] by (simp add: path_str_def)
  qed
qed

section \<open>Output paths\<close>

text \<open>
  Claim C6. The output path is a function of the base directory, the concept (or key) and
  the index alone: in the concept workflow it is the base directory, the two parts of the
  concept's directory and the file \<^verbatim>\<open>v<NN>.png\<close>, where \<^verbatim>\<open>NN\<close> is the index in decimal,
  zero-padded to two digits (exactly two digits for indices from 0 to 99); in the keyed
  workflow it is \<^verbatim>\<open>concepts/round3/<key>.png\<close> under the script's directory. Different
  pairs of concept and index, and different keys of the catalogue, give different paths.
\<close>

theorem C6_output_paths:
  "(map_of CONCEPT_DIRS c1 = Some d1 \<longrightarrow>
      variation_path (path_div base_dir d1) i = base_dir @ segments d1 @ [''v'' @ fmt_02d i @ ''.png''])
   \<and> (map_of CONCEPT_DIRS c1 = Some d1 \<and> base_dir \<noteq> [] \<and> base_dir \<noteq> [''/''] \<longrightarrow>
      path_str (variation_path (path_div base_dir d1) i)
        = path_str base_dir @ ''/'' @ d1 @ ''/'' @ ''v'' @ fmt_02d i @ ''.png'')
   \<and> (0 \<le> i \<and> i < 10 \<longrightarrow> fmt_02d i = [CHR ''0'', digit_char (nat i)])
   \<and> (10 \<le> i \<and> i < 100 \<longrightarrow> fmt_02d i = [digit_char (nat i div 10), digit_char (nat i mod 10)])
   \<and> (map_of CONCEPT_DIRS c1 = Some d1 \<and> map_of CONCEPT_DIRS c2 = Some d2
        \<and> variation_path (path_div base_dir d1) i = variation_path (path_div base_dir d2) j
      \<longrightarrow> c1 = c2 \<and> i = j)
   \<and> (k1 \<in> set PROMPT_KEYS \<longrightarrow>
      key_path (OUTPUT_DIR script_dir) k1 = script_dir @ [''concepts'', ''round3'', k1 @ ''.png''])
   \<and> (k1 \<in> set PROMPT_KEYS \<and> k2 \<in> set PROMPT_KEYS
        \<and> key_path (OUTPUT_DIR script_dir) k1 = key_path (OUTPUT_DIR script_dir) k2
      \<longrightarrow> k1 = k2)"
proof (intro conjI impI)
  assume d: "map_of CONCEPT_DIRS c1 = Some d1"
  show "variation_path (path_div base_dir d1) i = base_dir @ segments d1 @ [''v'' @ fmt_02d i @ ''.png'']"
    by (simp add: variation_path_parts concept_dir_div [OF d] variation_filename_def)
next
  assume a: "map_of CONCEPT_DIRS c1 = Some d1 \<and> base_dir \<noteq> [] \<and> base_dir \<noteq> [''/'']"
  then have d: "map_of CONCEPT_DIRS c1 = Some d1" and b: "base_dir \<noteq> []" "base_dir \<noteq> [''/'']"
    by simp_all
  obtain x y where seg: "segments d1 = [x, y]" and d1: "d1 = x @ ''/'' @ y"
    using concept_dirs_cases [OF d] by (elim disjE conjE) (simp_all add: segments_concept_dirs)
  have vp: "variation_path (path_div base_dir d1) i = ((base_dir @ [x]) @ [y]) @ [variation_filename i]"
    by (simp add: variation_path_parts concept_dir_div [OF d] seg)
  have n1: "base_dir @ [x] \<noteq> []" "base_dir @ [x] \<noteq> [''/'']"
    using b by (cases base_dir; simp)+
  have n2: "(base_dir @ [x]) @ [y] \<noteq> []" "(base_dir @ [x]) @ [y] \<noteq> [''/'']"
    using b by (cases base_dir; simp)+
  have "path_str (variation_path (path_div base_dir d1) i)
      = ((path_str base_dir @ ''/'' @ x) @ ''/'' @ y) @ ''/'' @ variation_filename i"
    by (simp only: vp path_str_snoc [OF n2] path_str_snoc [OF n1] path_str_snoc [OF b])
  then show "path_str (variation_path (path_div base_dir d1) i)
        = path_str base_dir @ ''/'' @ d1 @ ''/'' @ ''v'' @ fmt_02d i @ ''.png''"
    by (simp add: d1 variation_filename_def)
next
  assume "0 \<le> i \<and> i < 10"
  then show "fmt_02d i = [CHR ''0'', digit_char (nat i)]" by (simp add: fmt_02d_one)
next
  assume "10 \<le> i \<and> i < 100"
  then show "fmt_02d i = [digit_char (nat i div 10), digit_char (nat i mod 10)]"
    by (simp add: fmt_02d_two)
next
  assume a: "map_of CONCEPT_DIRS c1 = Some d1 \<and> map_of CONCEPT_DIRS c2 = Some d2
        \<and> variation_path (path_div base_dir d1) i = variation_path (path_div base_dir d2) j"
  then have d: "map_of CONCEPT_DIRS c1 = Some d1" "map_of CONCEPT_DIRS c2 = Some d2" by simp_all
  have "base_dir @ segments d1 @ [variation_filename i] = base_dir @ segments d2 @ [variation_filename j]"
    using a by (simp add: variation_path_parts concept_dir_div [OF d(1)] concept_dir_div [OF d(2)])
  then have eq: "segments d1 @ [variation_filename i] = segments d2 @ [variation_filename j]"
    by simp
  have "length (segments d1) = length (segments d2)"
    by (simp add: concept_dir_segments_length [OF d(1)] concept_dir_segments_length [OF d(2)])
  then have s: "segments d1 = segments d2" and v: "variation_filename i = variation_filename j"
    using eq by simp_all
  have c: "c1 = c2" by (rule concept_dir_segments_inj [OF d s])
  have ij: "i = j" by (rule variation_filename_inj [OF v])
  show "c1 = c2" "i = j" by (rule c, rule ij)
next
  assume "k1 \<in> set PROMPT_KEYS"
  then have "CHR ''/'' \<notin> set k1" by (rule prompt_keys_no_slash)
  then show "key_path (OUTPUT_DIR script_dir) k1 = script_dir @ [''concepts'', ''round3'', k1 @ ''.png'']"
    by (simp add: key_path_parts OUTPUT_DIR_def path_div_def segments_def)
next
  assume a: "k1 \<in> set PROMPT_KEYS \<and> k2 \<in> set PROMPT_KEYS
        \<and> key_path (OUTPUT_DIR script_dir) k1 = key_path (OUTPUT_DIR script_dir) k2"
  then have "CHR ''/'' \<notin> set k1" "CHR ''/'' \<notin> set k2" by (simp_all add: prompt_keys_no_slash)
  then show "k1 = k2" using a by (simp add: key_path_parts)
qed

theorem C6_output_paths_witness:
  "path_str (variation_path (path_div [''/'', ''srv''] ''concepts/01-kiln-mark'') 3)
       = ''/srv/concepts/01-kiln-mark/v03.png''
   \<and> variation_path (path_div [''/'', ''srv''] ''concepts/01-kiln-mark'') 3
       \<noteq> variation_path (path_div [''/'', ''srv''] ''concepts/02-earthen-strata'') 3
   \<and> key_path (OUTPUT_DIR [''/'', ''srv'']) ''r3-01-brick-wordmark''
       = [''/'', ''srv'', ''concepts'', ''round3'', ''r3-01-brick-wordmark.png'']
   \<and> key_path (OUTPUT_DIR [''/'', ''srv'']) ''r3-01-brick-wordmark''
       \<noteq> key_path (OUTPUT_DIR [''/'', ''srv'']) ''r3-24-type-sans''"
proof -
  have h: "map_of CONCEPT_DIRS 1 = Some ''concepts/01-kiln-mark''"
    "map_of CONCEPT_DIRS 2 = Some ''concepts/02-earthen-strata''"
    by (simp_all add: CONCEPT_DIRS_def)
  have k: "''r3-01-brick-wordmark'' \<in> set PROMPT_KEYS" "''r3-24-type-sans'' \<in> set PROMPT_KEYS"
    by (simp_all add: PROMPT_KEYS_def)
  have b: "[''/'', ''srv''] \<noteq> []" "[''/'', ''srv''] \<noteq> [''/'']" by simp_all
  have i: "(0::int) \<le> 3 \<and> (3::int) < 10" by simp
  note T = C6_output_paths [where ?c1.0 = 1 and ?d1.0 = "''concepts/01-kiln-mark''" and ?c2.0 = 2
      and ?d2.0 = "''concepts/02-earthen-strata''" and base_dir = "[''/'', ''srv'']" and i = 3 and j = 3
      and ?k1.0 = "''r3-01-brick-wordmark''" and ?k2.0 = "''r3-24-type-sans''"
      and script_dir = "[''/'', ''srv'']"]
  note T2 = T [THEN conjunct2, THEN conjunct1, THEN mp]
  note T3 = T [THEN conjunct2, THEN conjunct2, THEN conjunct1, THEN mp]
  note T5 = T [THEN conjunct2, THEN conjunct2, THEN conjunct2, THEN conjunct2, THEN conjunct1, THEN mp]
  note T6 = T [THEN conjunct2, THEN conjunct2, THEN conjunct2, THEN conjunct2, THEN conjunct2,
      THEN conjunct1, THEN mp]
  note T7 = T [THEN conjunct2, THEN conjunct2, THEN conjunct2, THEN conjunct2, THEN conjunct2,
      THEN conjunct2, THEN mp]
  have f: "fmt_02d 3 = ''03''" using T3 [OF i] by (simp add: digit_char_def)
  have p1: "path_str (variation_path (path_div [''/'', ''srv''] ''concepts/01-kiln-mark'') 3)
       = ''/srv/concepts/01-kiln-mark/v03.png''"
    using T2 [OF conjI [OF h(1) conjI [OF b]]] by (simp add: f path_str_def)
  have p2: "variation_path (path_div [''/'', ''srv''] ''concepts/01-kiln-mark'') 3
       \<noteq> variation_path (path_div [''/'', ''srv''] ''concepts/02-earthen-strata'') 3"
  proof
    assume eq: "variation_path (path_div [''/'', ''srv''] ''concepts/01-kiln-mark'') 3
       = variation_path (path_div [''/'', ''srv''] ''concepts/02-earthen-strata'') 3"
    have "(1::int) = 2 \<and> (3::int) = 3" by (rule T5 [OF conjI [OF h(1) conjI [OF h(2) eq]]])
    then show False by simp
  qed
  have p3: "key_path (OUTPUT_DIR [''/'', ''srv'']) ''r3-01-brick-wordmark''
       = [''/'', ''srv'', ''concepts'', ''round3'', ''r3-01-brick-wordmark.png'']"
    using T6 [OF k(1)] by simp
  have p4: "key_path (OUTPUT_DIR [''/'', ''srv'']) ''r3-01-brick-wordmark''
       \<noteq> key_path (OUTPUT_DIR [''/'', ''srv'']) ''r3-24-type-sans''"
  proof
    assume eq: "key_path (OUTPUT_DIR [''/'', ''srv'']) ''r3-01-brick-wordmark''
       = key_path (OUTPUT_DIR [''/'', ''srv'']) ''r3-24-type-sans''"
    have "''r3-01-brick-wordmark'' = ''r3-24-type-sans''"
      by (rule T7 [OF conjI [OF k(1) conjI [OF k(2) eq]]])
    then show False by simp
  qed
  show ?thesis by (intro conjI p1 p2 p3 p4)
qed

section \<open>Effects of the primitive operations\<close>

lemma emit_fields [simp]:
  "trace (emit e w) = trace w @ [e]" "ncalls (emit e w) = ncalls w"
  "files (emit e w) = files w" "dirs (emit e w) = dirs w"
  by (simp_all add: emit_def)

lemma print_fields [simp]:
  "trace (print s w) = trace w @ [Print s]" "ncalls (print s w) = ncalls w"
  "files (print s w) = files w" "dirs (print s w) = dirs w"
  by (simp_all add: print_def)

lemma sleep_fields [simp]:
  "trace (sleep ms w) = trace w @ [Sleep ms]" "ncalls (sleep ms w) = ncalls w"
  "files (sleep ms w) = files w" "dirs (sleep ms w) = dirs w"
  by (simp_all add: sleep_def)

lemma mkdir_fields [simp]:
  "trace (mkdir p w) = trace w @ [Mkdir p]" "ncalls (mkdir p w) = ncalls w"
  "files (mkdir p w) = files w" "dirs (mkdir p w) = dirs w \<union> set (prefixes p)"
  by (simp_all add: mkdir_def)

lemma write_file_fields [simp]:
  "trace (write_file p b w) = trace w @ [WriteFile p b]" "ncalls (write_file p b w) = ncalls w"
  "files (write_file p b w) = (files w)(p \<mapsto> b)" "dirs (write_file p b w) = dirs w"
  by (simp_all add: write_file_def)

lemma path_exists_same:
  "files w' = files w \<Longrightarrow> dirs w' = dirs w \<Longrightarrow> path_exists w' p = path_exists w p"
  by (simp add: path_exists_def)

lemma path_exists_print [simp]: "path_exists (print s w) p = path_exists w p"
  by (simp add: path_exists_def)

lemma path_exists_sleep [simp]: "path_exists (sleep ms w) p = path_exists w p"
  by (simp add: path_exists_def)

lemma path_exists_mkdir [simp]:
  "path_exists (mkdir d w) p \<longleftrightarrow> path_exists w p \<or> prefix p d"
  by (auto simp: path_exists_def)

lemma path_exists_write_file [simp]:
  "path_exists (write_file q b w) p \<longleftrightarrow> p = q \<or> path_exists w p"
  by (auto simp: path_exists_def)

lemma after_call_fields [simp]:
  "trace (after_call req w) = trace w @ [NetCall req]" "ncalls (after_call req w) = Suc (ncalls w)"
  "files (after_call req w) = files w" "dirs (after_call req w) = dirs w"
  by (simp_all add: after_call_def)

lemma path_exists_after_call [simp]: "path_exists (after_call req w) p = path_exists w p"
  by (simp add: path_exists_def)

lemma send_eq:
  "send E req w =
     (case net E (ncalls w) req of Raises \<Rightarrow> Inl TransportError | Responds r \<Rightarrow> Inr r,
      after_call req w)"
  by (simp add: send_def after_call_def Let_def split: net_outcome.splits)

lemma send_fields:
  assumes "send E req w = (x, w')"
  shows "trace w' = trace w @ [NetCall req]" "ncalls w' = Suc (ncalls w)"
    "files w' = files w" "dirs w' = dirs w"
  using assms by (auto simp: send_eq)

lemma post_checked_eq:
  "post_checked E req w =
     (case net E (ncalls w) req of Raises \<Rightarrow> Inl TransportError | Responds r \<Rightarrow> raise_for_status r,
      after_call req w)"
  by (simp add: post_checked_def send_eq split: net_outcome.splits)

lemma post_checked_fields:
  assumes "post_checked E req w = (x, w')"
  shows "trace w' = trace w @ [NetCall req]" "ncalls w' = Suc (ncalls w)"
    "files w' = files w" "dirs w' = dirs w"
  using assms by (auto simp: post_checked_eq)

lemma raise_for_status_cases:
  "raise_for_status r = Inr r' \<Longrightarrow> r' = r \<and> is_success r"
  "raise_for_status r = Inl e \<Longrightarrow> e = HTTPStatusError (status_code r) (resp_text r) \<and> \<not> is_success r"
  by (auto simp: raise_for_status_def split: if_splits)

section \<open>Effects of \<^verbatim>\<open>generate_image\<close>\<close>

lemma download_cases:
  assumes "download E u w = (x, w')"
  shows "(w' = w \<and> x = Inl TypeError)
       \<or> (\<exists>url. u = JStr url \<and> w' = after_call (GET url 60) w)"
  using assms by (cases u) (auto simp: download_def send_eq split: net_outcome.splits sum.splits)

lemma read_response_cases:
  assumes "read_response E r w = (x, w')"
  shows "w' = w \<or> (x = Inr None \<and> w' = print ''  Unexpected response format'' w)
       \<or> (\<exists>u. download E u w = (x, w'))"
  using assms unfolding read_response_def unexpected_format_def
  by (auto split: option.splits sum.splits if_splits)

lemma read_response_effects:
  assumes "read_response E r w = (x, w')"
  shows "files w' = files w \<and> dirs w' = dirs w \<and> ncalls w \<le> ncalls w'
       \<and> (\<exists>evs. trace w' = trace w @ evs \<and> (\<forall>e\<in>set evs. (is_print e \<or> is_call e) \<and> \<not> is_post e))"
proof -
  consider "w' = w" | "w' = print ''  Unexpected response format'' w"
    | url where "w' = after_call (GET url 60) w"
    using read_response_cases [OF assms] download_cases by blast
  then show ?thesis by cases auto
qed


lemma events_since_append: "trace w' = trace w @ evs \<Longrightarrow> events_since w w' = evs"
  by (simp add: events_since_def)

lemma events_since_refl [simp]: "events_since w w = []"
  by (simp add: events_since_def)

lemma on_http_error_eq:
  "on_http_error C E (auth_headers k) (primary_payload C p s q) (status_code r) (resp_text r) w =
     (if MODEL C \<noteq> FALLBACK_MODEL C then
        (case net E (ncalls w) (fallback_request C k p s q) of
           Raises \<Rightarrow>
             (Inl TransportError,
              after_call (fallback_request C k p s q) (print (trying_line C) (print (api_error_line r) w)))
         | Responds r2 \<Rightarrow>
             if is_success r2 then
               read_response E r2
                 (after_call (fallback_request C k p s q) (print (trying_line C) (print (api_error_line r) w)))
             else
               (Inr None,
                print (fallback_failed_line C r2)
                  (after_call (fallback_request C k p s q)
                    (print (trying_line C) (print (api_error_line r) w)))))
      else (Inr None, print (api_error_line r) w))"
  by (simp add: on_http_error_def post_checked_eq fallback_request_def api_error_line_def
      trying_line_def fallback_failed_line_def raise_for_status_def Let_def
      split: net_outcome.splits)

lemma generate_image_with_eq:
  "generate_image_with C E k p s q w =
     (case net E (ncalls w) (primary_request C k p s q) of
        Raises \<Rightarrow>
          (Inl TransportError, after_call (primary_request C k p s q) (print (calling_line C s q) w))
      | Responds r \<Rightarrow>
          if is_success r then
            read_response E r (after_call (primary_request C k p s q) (print (calling_line C s q) w))
          else
            on_http_error C E (auth_headers k) (primary_payload C p s q) (status_code r) (resp_text r)
              (after_call (primary_request C k p s q) (print (calling_line C s q) w)))"
  by (simp add: generate_image_with_def post_checked_eq primary_request_def calling_line_def
      auth_headers_def raise_for_status_def Let_def split: net_outcome.splits)

lemma fallback_payload_eq:
  "fallback_payload C (primary_payload C p s q) =
     [(''model'', JStr (FALLBACK_MODEL C)), (''prompt'', JStr p), (''size'', JStr s),
      (''quality'', JStr q), (''n'', JNum 1), (''response_format'', JStr ''b64_json'')]"
  by (simp add: fallback_payload_def primary_payload_def AList.delete_eq)

lemma on_http_error_effects:
  fixes r :: response
  assumes "on_http_error C E (auth_headers k) (primary_payload C p s q) (status_code r) (resp_text r) w
             = (x, w')"
  shows "files w' = files w \<and> dirs w' = dirs w \<and> ncalls w \<le> ncalls w'
       \<and> (\<exists>evs. trace w' = trace w @ evs \<and> (\<forall>e\<in>set evs. is_print e \<or> is_call e))"
proof (cases "MODEL C \<noteq> FALLBACK_MODEL C")
  case False
  then show ?thesis using assms by (auto simp: on_http_error_eq)
next
  case True
  let ?w3 = "after_call (fallback_request C k p s q) (print (trying_line C) (print (api_error_line r) w))"
  show ?thesis
  proof (cases "net E (ncalls w) (fallback_request C k p s q)")
    case Raises
    then show ?thesis using assms True by (auto simp: on_http_error_eq)
  next
    case (Responds r2)
    show ?thesis
    proof (cases "is_success r2")
      case False
      then show ?thesis using assms True Responds by (auto simp: on_http_error_eq)
    next
      case ok: True
      then have "read_response E r2 ?w3 = (x, w')"
        using assms True Responds by (simp add: on_http_error_eq)
      from read_response_effects [OF this]
      obtain evs where "files w' = files w" "dirs w' = dirs w" "ncalls ?w3 \<le> ncalls w'"
        "trace w' = trace ?w3 @ evs" "\<forall>e\<in>set evs. (is_print e \<or> is_call e) \<and> \<not> is_post e"
        by auto
      then show ?thesis by auto
    qed
  qed
qed

lemma generate_image_with_effects:
  assumes "generate_image_with C E k p s q w = (x, w')"
  shows "files w' = files w \<and> dirs w' = dirs w \<and> ncalls w < ncalls w'
       \<and> (\<exists>evs. trace w' = trace w @ Print (calling_line C s q) # NetCall (primary_request C k p s q) # evs
            \<and> (\<forall>e\<in>set evs. is_print e \<or> is_call e))"
proof -
  let ?w2 = "after_call (primary_request C k p s q) (print (calling_line C s q) w)"
  show ?thesis
  proof (cases "net E (ncalls w) (primary_request C k p s q)")
    case Raises
    then show ?thesis using assms by (auto simp: generate_image_with_eq)
  next
    case (Responds r)
    show ?thesis
    proof (cases "is_success r")
      case True
      then have "read_response E r ?w2 = (x, w')"
        using assms Responds by (simp add: generate_image_with_eq)
      from read_response_effects [OF this]
      obtain evs where "files w' = files w" "dirs w' = dirs w" "ncalls ?w2 \<le> ncalls w'"
        "trace w' = trace ?w2 @ evs" "\<forall>e\<in>set evs. (is_print e \<or> is_call e) \<and> \<not> is_post e"
        by auto
      then show ?thesis by auto
    next
      case False
      then have "on_http_error C E (auth_headers k) (primary_payload C p s q) (status_code r)
          (resp_text r) ?w2 = (x, w')"
        using assms Responds by (simp add: generate_image_with_eq)
      from on_http_error_effects [OF this]
      obtain evs where "files w' = files w" "dirs w' = dirs w" "ncalls ?w2 \<le> ncalls w'"
        "trace w' = trace ?w2 @ evs" "\<forall>e\<in>set evs. is_print e \<or> is_call e"
        by auto
      then show ?thesis by auto
    qed
  qed
qed


section \<open>The fallback to the second model\<close>

lemma generate_image_with_http_failure:
  assumes "net E (ncalls w) (primary_request C k p s q) = Responds r1" and "\<not> is_success r1"
  shows "generate_image_with C E k p s q w =
           on_http_error C E (auth_headers k) (primary_payload C p s q) (status_code r1) (resp_text r1)
             (after_call (primary_request C k p s q) (print (calling_line C s q) w))"
  using assms by (simp add: generate_image_with_eq)

lemma fallback_request_eq:
  "fallback_request C k p s q =
     POST API_URL [(''Authorization'', ''Bearer '' @ k)]
       [(''model'', JStr (FALLBACK_MODEL C)), (''prompt'', JStr p), (''size'', JStr s),
        (''quality'', JStr q), (''n'', JNum 1), (''response_format'', JStr ''b64_json'')]
       (post_timeout C)"
  by (simp add: fallback_request_def fallback_payload_eq auth_headers_def)

lemma fallback_trace:
  fixes r1 :: response
  assumes n1: "net E (ncalls w) (primary_request C k p s q) = Responds r1" and f1: "\<not> is_success r1"
    and m: "MODEL C \<noteq> FALLBACK_MODEL C"
  shows "\<exists>rest. events_since w (snd (generate_image_with C E k p s q w))
             = [Print (calling_line C s q), NetCall (primary_request C k p s q),
                Print (api_error_line r1), Print (trying_line C),
                NetCall (fallback_request C k p s q)] @ rest
           \<and> (\<forall>e\<in>set rest. \<not> is_post e)"
proof -
  let ?w2 = "after_call (primary_request C k p s q) (print (calling_line C s q) w)"
  let ?w3 = "after_call (fallback_request C k p s q) (print (trying_line C) (print (api_error_line r1) ?w2))"
  let ?five = "[Print (calling_line C s q), NetCall (primary_request C k p s q),
                Print (api_error_line r1), Print (trying_line C),
                NetCall (fallback_request C k p s q)]"
  have w3: "trace ?w3 = trace w @ ?five" by simp
  note g = generate_image_with_http_failure [OF n1 f1]
  show ?thesis
  proof (cases "net E (ncalls ?w2) (fallback_request C k p s q)")
    case Raises
    then have "snd (generate_image_with C E k p s q w) = ?w3"
      using m by (simp add: g on_http_error_eq)
    then have "events_since w (snd (generate_image_with C E k p s q w)) = ?five @ []"
      using w3 by (simp add: events_since_def)
    then show ?thesis by (intro exI [of _ "[]"]) simp
  next
    case (Responds r2)
    show ?thesis
    proof (cases "is_success r2")
      case False
      then have "snd (generate_image_with C E k p s q w) = print (fallback_failed_line C r2) ?w3"
        using m Responds by (simp add: g on_http_error_eq)
      then have "events_since w (snd (generate_image_with C E k p s q w))
          = ?five @ [Print (fallback_failed_line C r2)]"
        by (simp add: events_since_def)
      then show ?thesis by (intro exI [of _ "[Print (fallback_failed_line C r2)]"]) simp
    next
      case True
      then have "generate_image_with C E k p s q w = read_response E r2 ?w3"
        using m Responds by (simp add: g on_http_error_eq)
      then have "read_response E r2 ?w3
          = (fst (generate_image_with C E k p s q w), snd (generate_image_with C E k p s q w))"
        by simp
      from read_response_effects [OF this]
      obtain evs where evs: "trace (snd (generate_image_with C E k p s q w)) = trace ?w3 @ evs"
        "\<forall>e\<in>set evs. (is_print e \<or> is_call e) \<and> \<not> is_post e"
        by auto
      have "events_since w (snd (generate_image_with C E k p s q w)) = ?five @ evs"
        by (rule events_since_append) (simp add: evs(1))
      then show ?thesis using evs(2) by (intro exI [of _ evs]) simp
    qed
  qed
qed

lemma fallback_fails:
  fixes r1 r2 :: response
  assumes n1: "net E (ncalls w) (primary_request C k p s q) = Responds r1" and f1: "\<not> is_success r1"
    and m: "MODEL C \<noteq> FALLBACK_MODEL C"
    and n2: "net E (Suc (ncalls w)) (fallback_request C k p s q) = Responds r2" and f2: "\<not> is_success r2"
  shows "generate_image_with C E k p s q w =
     (Inr None,
      print (fallback_failed_line C r2)
        (after_call (fallback_request C k p s q)
          (print (trying_line C)
            (print (api_error_line r1)
              (after_call (primary_request C k p s q) (print (calling_line C s q) w))))))"
  using m n2 f2 by (simp add: generate_image_with_http_failure [OF n1 f1] on_http_error_eq)

lemma no_fallback_when_same_model:
  fixes r1 :: response
  assumes n1: "net E (ncalls w) (primary_request C k p s q) = Responds r1" and f1: "\<not> is_success r1"
    and m: "MODEL C = FALLBACK_MODEL C"
  shows "generate_image_with C E k p s q w =
     (Inr None,
      print (api_error_line r1)
        (after_call (primary_request C k p s q) (print (calling_line C s q) w)))"
  using m by (simp add: generate_image_with_http_failure [OF n1 f1] on_http_error_eq)

text \<open>
  Claim C2. When the request to the primary model is answered with a status outside 2xx,
  \<^verbatim>\<open>generate_image\<close> (of either script) sends exactly one more POST: the same prompt, size
  and quality for the fallback model, with \<^verbatim>\<open>response_format\<close> \<^verbatim>\<open>b64_json\<close> and without
  \<^verbatim>\<open>output_format\<close>; nothing that follows is a POST. If the fallback is answered with a
  status outside 2xx too, the result is \<^verbatim>\<open>None\<close> after two network calls, and the last log
  line carries that status and the first 300 characters of the body. The fallback is sent
  only if the two model names differ (as they do in both scripts); with equal names the
  result is \<^verbatim>\<open>None\<close> after the one call.
\<close>

theorem C2_single_fallback:
  fixes r1 r2 :: response
  shows
  "MODEL logo_cfg \<noteq> FALLBACK_MODEL logo_cfg \<and> MODEL round3_cfg \<noteq> FALLBACK_MODEL round3_cfg
   \<and> generate_image = generate_image_with logo_cfg
   \<and> generate_image_r3 = generate_image_with round3_cfg
   \<and> fallback_request C k p s q =
       POST API_URL [(''Authorization'', ''Bearer '' @ k)]
         [(''model'', JStr (FALLBACK_MODEL C)), (''prompt'', JStr p), (''size'', JStr s),
          (''quality'', JStr q), (''n'', JNum 1), (''response_format'', JStr ''b64_json'')]
         (post_timeout C)
   \<and> (net E (ncalls w) (primary_request C k p s q) = Responds r1 \<and> \<not> is_success r1
        \<and> MODEL C \<noteq> FALLBACK_MODEL C \<longrightarrow>
       (\<exists>rest. events_since w (snd (generate_image_with C E k p s q w))
             = [Print (calling_line C s q), NetCall (primary_request C k p s q),
                Print (api_error_line r1), Print (trying_line C),
                NetCall (fallback_request C k p s q)] @ rest
           \<and> (\<forall>e\<in>set rest. \<not> is_post e)))
   \<and> (net E (ncalls w) (primary_request C k p s q) = Responds r1 \<and> \<not> is_success r1
        \<and> MODEL C \<noteq> FALLBACK_MODEL C
        \<and> net E (Suc (ncalls w)) (fallback_request C k p s q) = Responds r2 \<and> \<not> is_success r2 \<longrightarrow>
       fst (generate_image_with C E k p s q w) = Inr None
       \<and> ncalls (snd (generate_image_with C E k p s q w)) = ncalls w + 2
       \<and> events_since w (snd (generate_image_with C E k p s q w))
             = [Print (calling_line C s q), NetCall (primary_request C k p s q),
                Print (api_error_line r1), Print (trying_line C),
                NetCall (fallback_request C k p s q), Print (fallback_failed_line C r2)])
   \<and> (net E (ncalls w) (primary_request C k p s q) = Responds r1 \<and> \<not> is_success r1
        \<and> MODEL C = FALLBACK_MODEL C \<longrightarrow>
       fst (generate_image_with C E k p s q w) = Inr None
       \<and> ncalls (snd (generate_image_with C E k p s q w)) = ncalls w + 1
       \<and> events_since w (snd (generate_image_with C E k p s q w))
             = [Print (calling_line C s q), NetCall (primary_request C k p s q),
                Print (api_error_line r1)])"
proof (intro conjI impI)
  show "MODEL logo_cfg \<noteq> FALLBACK_MODEL logo_cfg" by (simp add: logo_cfg_def)
  show "MODEL round3_cfg \<noteq> FALLBACK_MODEL round3_cfg" by (simp add: round3_cfg_def)
  show "generate_image = generate_image_with logo_cfg" by (rule generate_image_def)
  show "generate_image_r3 = generate_image_with round3_cfg" by (rule generate_image_r3_def)
  show "fallback_request C k p s q =
       POST API_URL [(''Authorization'', ''Bearer '' @ k)]
         [(''model'', JStr (FALLBACK_MODEL C)), (''prompt'', JStr p), (''size'', JStr s),
          (''quality'', JStr q), (''n'', JNum 1), (''response_format'', JStr ''b64_json'')]
         (post_timeout C)"
    by (rule fallback_request_eq)
next
  assume "net E (ncalls w) (primary_request C k p s q) = Responds r1 \<and> \<not> is_success r1
        \<and> MODEL C \<noteq> FALLBACK_MODEL C"
  then show "\<exists>rest. events_since w (snd (generate_image_with C E k p s q w))
             = [Print (calling_line C s q), NetCall (primary_request C k p s q),
                Print (api_error_line r1), Print (trying_line C),
                NetCall (fallback_request C k p s q)] @ rest
           \<and> (\<forall>e\<in>set rest. \<not> is_post e)"
    using fallback_trace by blast
next
  assume a: "net E (ncalls w) (primary_request C k p s q) = Responds r1 \<and> \<not> is_success r1
        \<and> MODEL C \<noteq> FALLBACK_MODEL C
        \<and> net E (Suc (ncalls w)) (fallback_request C k p s q) = Responds r2 \<and> \<not> is_success r2"
  have g: "generate_image_with C E k p s q w =
     (Inr None,
      print (fallback_failed_line C r2)
        (after_call (fallback_request C k p s q)
          (print (trying_line C)
            (print (api_error_line r1)
              (after_call (primary_request C k p s q) (print (calling_line C s q) w))))))"
    by (rule fallback_fails) (use a in simp_all)
  show "fst (generate_image_with C E k p s q w) = Inr None" by (simp add: g)
  show "ncalls (snd (generate_image_with C E k p s q w)) = ncalls w + 2" by (simp add: g)
  show "events_since w (snd (generate_image_with C E k p s q w))
             = [Print (calling_line C s q), NetCall (primary_request C k p s q),
                Print (api_error_line r1), Print (trying_line C),
                NetCall (fallback_request C k p s q), Print (fallback_failed_line C r2)]"
    by (simp add: g events_since_def)
next
  assume a: "net E (ncalls w) (primary_request C k p s q) = Responds r1 \<and> \<not> is_success r1
        \<and> MODEL C = FALLBACK_MODEL C"
  have g: "generate_image_with C E k p s q w =
     (Inr None,
      print (api_error_line r1)
        (after_call (primary_request C k p s q) (print (calling_line C s q) w)))"
    by (rule no_fallback_when_same_model) (use a in simp_all)
  show "fst (generate_image_with C E k p s q w) = Inr None" by (simp add: g)
  show "ncalls (snd (generate_image_with C E k p s q w)) = ncalls w + 1" by (simp add: g)
  show "events_since w (snd (generate_image_with C E k p s q w))
             = [Print (calling_line C s q), NetCall (primary_request C k p s q),
                Print (api_error_line r1)]"
    by (simp add: g events_since_def)
qed

theorem C2_single_fallback_witness:
  "fst (generate_image (env_always (Responds error_response)) ''sk-test'' ''P'' ''1024x1024'' ''high''
          empty_world) = Inr None
   \<and> ncalls (snd (generate_image (env_always (Responds error_response)) ''sk-test'' ''P''
          ''1024x1024'' ''high'' empty_world)) = 2
   \<and> map is_post (events_since empty_world
        (snd (generate_image (env_always (Responds error_response)) ''sk-test'' ''P''
          ''1024x1024'' ''high'' empty_world)))
       = [False, True, False, False, True, False]"
proof -
  let ?E = "env_always (Responds error_response)"
  note T = C2_single_fallback [where C = logo_cfg and E = ?E and w = empty_world
      and k = "''sk-test''" and p = "''P''" and s = "''1024x1024''" and q = "''high''"
      and ?r1.0 = error_response and ?r2.0 = error_response]
  note T7 = T [THEN conjunct2, THEN conjunct2, THEN conjunct2, THEN conjunct2, THEN conjunct2,
      THEN conjunct2, THEN conjunct1, THEN mp]
  have h: "net ?E (ncalls empty_world) (primary_request logo_cfg ''sk-test'' ''P'' ''1024x1024'' ''high'')
        = Responds error_response \<and> \<not> is_success error_response
      \<and> MODEL logo_cfg \<noteq> FALLBACK_MODEL logo_cfg
      \<and> net ?E (Suc (ncalls empty_world))
          (fallback_request logo_cfg ''sk-test'' ''P'' ''1024x1024'' ''high'')
        = Responds error_response \<and> \<not> is_success error_response"
    by (simp add: env_always_def is_success_def error_response_def logo_cfg_def)
  show ?thesis
    using T7 [OF h]
    by (simp add: generate_image_def empty_world_def primary_request_def fallback_request_def)
qed


section \<open>Reading a successful response\<close>

lemma key_in_iff: "k \<in> fst ` set kvs \<longleftrightarrow> map_of kvs k \<noteq> None"
  by (simp add: map_of_eq_None_iff)

lemma read_response_first_item:
  assumes j: "resp_json r = Some (JObj obj)"
    and d: "map_of obj ''data'' = Some (JArr (JObj item # items))"
  shows "read_response E r w =
     (case map_of item ''b64_json'' of
        Some v \<Rightarrow> (decode_b64 E v, w)
      | None \<Rightarrow>
          (case map_of item ''url'' of
             Some u \<Rightarrow> download E u w
           | None \<Rightarrow> (Inr None, print ''  Unexpected response format'' w)))"
proof -
  have k: "''data'' \<in> fst ` set obj" using d by (simp add: key_in_iff)
  show ?thesis
  proof (cases "map_of item ''b64_json''")
    case (Some v)
    then have "''b64_json'' \<in> fst ` set item" by (simp add: key_in_iff)
    then show ?thesis using j d k Some by (simp add: read_response_def)
  next
    case None
    then have nb: "''b64_json'' \<notin> fst ` set item" by (simp add: key_in_iff)
    show ?thesis
    proof (cases "map_of item ''url''")
      case (Some u)
      then have "''url'' \<in> fst ` set item" by (simp add: key_in_iff)
      then show ?thesis using j d k None nb Some by (simp add: read_response_def)
    next
      case nu: None
      then have "''url'' \<notin> fst ` set item" by (simp add: key_in_iff)
      then show ?thesis
        using j d k None nb nu by (simp add: read_response_def unexpected_format_def)
    qed
  qed
qed

lemma read_response_no_data:
  assumes j: "resp_json r = Some (JObj obj)"
    and d: "map_of obj ''data'' = None \<or> map_of obj ''data'' = Some (JArr [])"
  shows "read_response E r w = (Inr None, print ''  Unexpected response format'' w)"
proof (cases "map_of obj ''data''")
  case None
  then have "''data'' \<notin> fst ` set obj" by (simp add: key_in_iff)
  then show ?thesis using j by (simp add: read_response_def unexpected_format_def)
next
  case (Some a)
  then have a: "a = JArr []" using d by simp
  have "''data'' \<in> fst ` set obj" using Some by (simp add: key_in_iff)
  then show ?thesis using j Some a by (simp add: read_response_def unexpected_format_def)
qed


lemma generate_image_with_primary_success:
  assumes "net E (ncalls w) (primary_request C k p s q) = Responds r" and "is_success r"
  shows "generate_image_with C E k p s q w =
           read_response E r (after_call (primary_request C k p s q) (print (calling_line C s q) w))"
  using assms by (simp add: generate_image_with_eq)






section \<open>The steps of the batch loops\<close>

lemma pace_fields [simp]:
  "ncalls (pace ms i n w) = ncalls w" "files (pace ms i n w) = files w"
  "dirs (pace ms i n w) = dirs w"
  "trace (pace ms i n w) = trace w @ (if i < n then [Sleep ms] else [])"
  by (simp_all add: pace_def)

lemma path_exists_pace [simp]: "path_exists (pace ms i n w) p = path_exists w p"
  by (simp add: path_exists_def)

lemma persisted_fields [simp]:
  "ncalls (persisted p b w) = ncalls w" "files (persisted p b w) = (files w)(p \<mapsto> b)"
  "dirs (persisted p b w) = dirs w \<union> set (prefixes (path_parent p))"
  "trace (persisted p b w) = trace w @ [Mkdir (path_parent p), WriteFile p b]"
  by (simp_all add: persisted_def)

lemma path_exists_persisted:
  "path_exists (persisted q b w) p \<longleftrightarrow> p = q \<or> path_exists w p \<or> prefix p (path_parent q)"
  by (auto simp: persisted_def)

lemma save_image_eq:
  "save_image E b p w =
     (case image_open E b of
        None \<Rightarrow> (Inl UnidentifiedImageError, persisted p b w)
      | Some (wd, ht) \<Rightarrow> (Inr (), print (saved_line p wd ht) (persisted p b w)))"
  by (simp add: save_image_def persisted_def saved_line_def Let_def split: option.splits)

lemma run_variation_skip:
  assumes "path_exists w (variation_path od i)"
  shows "run_variation E c k od v q s i n w = (Inr (n + 1), print (skip_line i v) w)"
  using assms by (simp add: run_variation_def skip_line_def Let_def)

lemma run_variation_generate:
  assumes "\<not> path_exists w (variation_path od i)"
  shows "run_variation E c k od v q s i n w =
     (case generate_image E k (prompt c @ variation_suffix i) s q (print (generating_line i v) w) of
        (Inl e, w2) \<Rightarrow> (Inl e, w2)
      | (Inr ob, w2) \<Rightarrow>
          if truthy ob then
            (case image_open E (the ob) of
               None \<Rightarrow> (Inl UnidentifiedImageError, persisted (variation_path od i) (the ob) w2)
             | Some (wd, ht) \<Rightarrow>
                 (Inr (n + 1),
                  pace 1000 i v
                    (print (saved_line (variation_path od i) wd ht)
                      (persisted (variation_path od i) (the ob) w2))))
          else (Inr n, pace 1000 i v (print (failed_line i) w2)))"
  using assms
  by (simp add: run_variation_def generating_line_def failed_line_def save_image_eq pace_def Let_def
      split: prod.splits sum.splits option.splits)

lemma r3_iteration_skip:
  assumes "path_exists w (key_path od key)"
  shows "r3_iteration prompts E k od t i key n w = (Inr (n + 1), print (r3_skip_line t i key) w)"
  using assms by (simp add: r3_iteration_def r3_skip_line_def Let_def)

lemma r3_iteration_generate:
  assumes "\<not> path_exists w (key_path od key)"
  shows "r3_iteration prompts E k od t i key n w =
     (case map_of prompts key of
        None \<Rightarrow> (Inl KeyError, r3_banner t i key w)
      | Some p \<Rightarrow>
     (case generate_image_r3 E k p ''1024x1024'' ''high'' (r3_banner t i key w) of
        (Inl e, w2) \<Rightarrow> (Inl e, w2)
      | (Inr ob, w2) \<Rightarrow>
          if truthy ob then
            (case image_open E (the ob) of
               None \<Rightarrow> (Inl UnidentifiedImageError, persisted (key_path od key) (the ob) w2)
             | Some (wd, ht) \<Rightarrow>
                 (Inr (n + 1),
                  pace 1500 i t
                    (print (saved_line (key_path od key) wd ht)
                      (persisted (key_path od key) (the ob) w2))))
          else (Inr n, pace 1500 i t (print (''  FAILED: '' @ key) w2))))"
  using assms
  by (simp add: r3_iteration_def r3_banner_def persisted_def saved_line_def pace_def Let_def
      split: prod.splits sum.splits option.splits)


section \<open>Persisting an image\<close>

lemma generate_image_with_delivers:
  assumes n: "net E (ncalls w) (primary_request C k p s q) = Responds r" and d: "delivers E r b"
  shows "generate_image_with C E k p s q w =
           (Inr (Some b), after_call (primary_request C k p s q) (print (calling_line C s q) w))"
proof -
  from d obtain obj item items s64 where ok: "is_success r"
    and j: "resp_json r = Some (JObj obj)"
    and a: "map_of obj ''data'' = Some (JArr (JObj item # items))"
    and v: "map_of item ''b64_json'' = Some (JStr s64)" and b: "b64decode E s64 = Some b"
    unfolding delivers_def by blast
  show ?thesis
    unfolding generate_image_with_primary_success [OF n ok] read_response_first_item [OF j a]
    using v b by (simp add: decode_b64_def)
qed

lemma env_corrupt_delivery:
  "net env_corrupt m req = Responds image_response"
  "is_success image_response"
  "resp_json image_response = Some (JObj [(''data'', JArr [JObj [(''b64_json'', JStr ''iVBORw=='')]])])"
  "b64decode env_corrupt s = Some [0x00]"
  "image_open env_corrupt b = None"
  by (simp_all add: env_corrupt_def image_response_def is_success_def)

lemma generate_image_with_env_corrupt:
  "generate_image_with C env_corrupt k p s q w =
     (Inr (Some [0x00]), after_call (primary_request C k p s q) (print (calling_line C s q) w))"
  unfolding generate_image_with_primary_success [OF env_corrupt_delivery(1) env_corrupt_delivery(2)]
    read_response_first_item [OF env_corrupt_delivery(3) map_of_Cons_code(2) [THEN trans, OF if_P [OF refl]]]
  by (simp add: decode_b64_def env_corrupt_delivery)

text \<open>
  Claim C10. \<^verbatim>\<open>save_image\<close> creates the parent directory of the output path and writes
  exactly the given bytes to the path as its first two effects, before the bytes are opened
  as an image; whatever the outcome of opening them, the path holds those bytes afterwards,
  and only log lines can follow. If the bytes do not open as an image, the call raises, and
  the state it leaves is the one right after the write. The same holds for an iteration of
  either batch loop whose generation returned such bytes: the error leaves the iteration,
  with the file on disk.
\<close>

theorem C10_write_before_validation:
  "files (snd (save_image E b p w)) p = Some b
   \<and> set (prefixes (path_parent p)) \<subseteq> dirs (snd (save_image E b p w))
   \<and> (\<exists>rest. events_since w (snd (save_image E b p w))
                = [Mkdir (path_parent p), WriteFile p b] @ rest
            \<and> (\<forall>e\<in>set rest. is_print e))
   \<and> (image_open E b = None \<longrightarrow>
        save_image E b p w = (Inl UnidentifiedImageError, persisted p b w)
        \<and> files (persisted p b w) p = Some b
        \<and> events_since w (persisted p b w) = [Mkdir (path_parent p), WriteFile p b])
   \<and> (\<not> path_exists w (variation_path od i)
        \<and> generate_image E k (prompt c @ variation_suffix i) s q (print (generating_line i v) w)
            = (Inr (Some b), w2)
        \<and> b \<noteq> [] \<and> image_open E b = None \<longrightarrow>
        run_variation E c k od v q s i n w
          = (Inl UnidentifiedImageError, persisted (variation_path od i) b w2))
   \<and> (\<not> path_exists w (key_path od key) \<and> map_of prompts key = Some pr
        \<and> generate_image_r3 E k pr ''1024x1024'' ''high'' (r3_banner t i key w) = (Inr (Some b), w2)
        \<and> b \<noteq> [] \<and> image_open E b = None \<longrightarrow>
        r3_iteration prompts E k od t i key n w
          = (Inl UnidentifiedImageError, persisted (key_path od key) b w2))"
proof (intro conjI impI)
  show "files (snd (save_image E b p w)) p = Some b"
    by (simp add: save_image_eq split: option.splits)
  show "set (prefixes (path_parent p)) \<subseteq> dirs (snd (save_image E b p w))"
    by (simp add: save_image_eq split: option.splits)
  show "\<exists>rest. events_since w (snd (save_image E b p w))
                = [Mkdir (path_parent p), WriteFile p b] @ rest
            \<and> (\<forall>e\<in>set rest. is_print e)"
    by (cases "image_open E b") (auto simp: save_image_eq events_since_def)
next
  assume "image_open E b = None"
  then show "save_image E b p w = (Inl UnidentifiedImageError, persisted p b w)"
    by (simp add: save_image_eq)
next
  show "files (persisted p b w) p = Some b" by simp
  show "events_since w (persisted p b w) = [Mkdir (path_parent p), WriteFile p b]"
    by (simp add: events_since_def)
next
  assume a: "\<not> path_exists w (variation_path od i)
        \<and> generate_image E k (prompt c @ variation_suffix i) s q (print (generating_line i v) w)
            = (Inr (Some b), w2)
        \<and> b \<noteq> [] \<and> image_open E b = None"
  then have ne: "\<not> path_exists w (variation_path od i)" by simp
  show "run_variation E c k od v q s i n w
          = (Inl UnidentifiedImageError, persisted (variation_path od i) b w2)"
    unfolding run_variation_generate [OF ne] using a by (simp add: truthy_def)
next
  assume a: "\<not> path_exists w (key_path od key) \<and> map_of prompts key = Some pr
        \<and> generate_image_r3 E k pr ''1024x1024'' ''high'' (r3_banner t i key w) = (Inr (Some b), w2)
        \<and> b \<noteq> [] \<and> image_open E b = None"
  then have ne: "\<not> path_exists w (key_path od key)" by simp
  show "r3_iteration prompts E k od t i key n w
          = (Inl UnidentifiedImageError, persisted (key_path od key) b w2)"
    unfolding r3_iteration_generate [OF ne] using a by (simp add: truthy_def)
qed

theorem C10_write_before_validation_witness:
  "save_image env_corrupt [0x00] [''/'', ''srv'', ''a.png''] empty_world
     = (Inl UnidentifiedImageError, persisted [''/'', ''srv'', ''a.png''] [0x00] empty_world)
   \<and> files (persisted [''/'', ''srv'', ''a.png''] [0x00] empty_world) [''/'', ''srv'', ''a.png'']
       = Some [0x00]
   \<and> fst (r3_iteration (PROMPTS (\<lambda>key. ''P'')) env_corrupt ''sk-test'' [''/'', ''srv''] 1 1
            ''r3-01-brick-wordmark'' 0 empty_world) = Inl UnidentifiedImageError
   \<and> files (snd (r3_iteration (PROMPTS (\<lambda>key. ''P'')) env_corrupt ''sk-test'' [''/'', ''srv''] 1 1
            ''r3-01-brick-wordmark'' 0 empty_world)) [''/'', ''srv'', ''r3-01-brick-wordmark.png'']
       = Some [0x00]
   \<and> fst (run_variation env_corrupt \<lparr>name = ''The Kiln Mark'', prompt = ''P''\<rparr> ''sk-test''
            [''/'', ''srv''] 1 ''high'' ''1024x1024'' 1 0 empty_world) = Inl UnidentifiedImageError"
proof -
  let ?od = "[''/'', ''srv'']"
  let ?key = "''r3-01-brick-wordmark''"
  let ?c = "\<lparr>name = ''The Kiln Mark'', prompt = ''P''\<rparr>"
  let ?w2 = "after_call (primary_request round3_cfg ''sk-test'' ''P'' ''1024x1024'' ''high'')
               (print (calling_line round3_cfg ''1024x1024'' ''high'')
                 (r3_banner 1 1 ?key empty_world))"
  let ?v2 = "after_call (primary_request logo_cfg ''sk-test'' (''P'' @ variation_suffix 1)
                 ''1024x1024'' ''high'')
               (print (calling_line logo_cfg ''1024x1024'' ''high'')
                 (print (generating_line 1 1) empty_world))"
  note S = C10_write_before_validation [where E = env_corrupt and b = "[0x00]"
      and p = "[''/'', ''srv'', ''a.png'']" and w = empty_world]
  note S4 = S [THEN conjunct2, THEN conjunct2, THEN conjunct2, THEN conjunct1, THEN mp]
  note R = C10_write_before_validation [where E = env_corrupt and b = "[0x00]"
      and w = empty_world and od = ?od and key = ?key and prompts = "PROMPTS (\<lambda>key. ''P'')"
      and pr = "''P''" and k = "''sk-test''" and t = 1 and i = 1 and n = 0 and ?w2.0 = ?w2]
  note R6 = R [THEN conjunct2, THEN conjunct2, THEN conjunct2, THEN conjunct2, THEN conjunct2, THEN mp]
  note V = C10_write_before_validation [where E = env_corrupt and b = "[0x00]"
      and w = empty_world and od = ?od and c = ?c and v = 1 and q = "''high''"
      and s = "''1024x1024''" and k = "''sk-test''" and i = 1 and n = 0 and ?w2.0 = ?v2]
  note V5 = V [THEN conjunct2, THEN conjunct2, THEN conjunct2, THEN conjunct2, THEN conjunct1, THEN mp]
  have o: "image_open env_corrupt [0x00] = None" by (rule env_corrupt_delivery)
  have kp: "key_path ?od ?key = [''/'', ''srv'', ''r3-01-brick-wordmark.png'']"
    by (simp add: key_path_parts)
  have h6: "\<not> path_exists empty_world (key_path ?od ?key)
        \<and> map_of (PROMPTS (\<lambda>key. ''P'')) ?key = Some ''P''
        \<and> generate_image_r3 env_corrupt ''sk-test'' ''P'' ''1024x1024'' ''high''
            (r3_banner 1 1 ?key empty_world) = (Inr (Some [0x00]), ?w2)
        \<and> [0x00 :: 8 word] \<noteq> [] \<and> image_open env_corrupt [0x00] = None"
    by (simp add: path_exists_def empty_world_def PROMPTS_def PROMPT_KEYS_def
        generate_image_r3_def generate_image_with_env_corrupt o)
  have h5: "\<not> path_exists empty_world (variation_path ?od 1)
        \<and> generate_image env_corrupt ''sk-test'' (prompt ?c @ variation_suffix 1) ''1024x1024'' ''high''
            (print (generating_line 1 1) empty_world) = (Inr (Some [0x00]), ?v2)
        \<and> [0x00 :: 8 word] \<noteq> [] \<and> image_open env_corrupt [0x00] = None"
    by (simp add: path_exists_def empty_world_def generate_image_def
        generate_image_with_env_corrupt o)
  show ?thesis
    unfolding S4 [OF o, THEN conjunct1] R6 [OF h6] V5 [OF h5] kp by simp
qed

section \<open>The success count\<close>

lemma run_variation_count:
  assumes "run_variation E c k od v q s i n w = (Inr n', w')"
  shows "n' = n \<or> n' = n + 1"
proof (cases "path_exists w (variation_path od i)")
  case True
  then show ?thesis using assms by (simp add: run_variation_skip)
next
  case False
  show ?thesis
    using assms unfolding run_variation_generate [OF False]
    by (auto split: prod.splits sum.splits option.splits if_splits)
qed

lemma variations_loop_count:
  "variations_loop E c k od v q s js n w = (Inr n', w') \<Longrightarrow> n \<le> n' \<and> n' \<le> n + int (length js)"
proof (induction js arbitrary: n w)
  case Nil
  then show ?case by simp
next
  case (Cons i js)
  obtain x w1 where step: "run_variation E c k od v q s i n w = (x, w1)" by (cases "run_variation E c k od v q s i n w")
  show ?case
  proof (cases x)
    case (Inl e)
    then show ?thesis using Cons.prems step by simp
  next
    case (Inr m)
    then have rest: "variations_loop E c k od v q s js m w1 = (Inr n', w')"
      using Cons.prems step by simp
    have "m = n \<or> m = n + 1" using run_variation_count step Inr by blast
    then show ?thesis using Cons.IH [OF rest] by auto
  qed
qed

lemma concept_start_fields [simp]:
  "ncalls (concept_start cid c od v w) = ncalls w" "files (concept_start cid c od v w) = files w"
  "dirs (concept_start cid c od v w) = dirs w \<union> set (prefixes od)"
  by (simp_all add: concept_start_def)

lemma concept_start_trace:
  "\<exists>evs. trace (concept_start cid c od v w) = trace w @ Mkdir od # evs \<and> (\<forall>e\<in>set evs. is_print e)"
  by (simp add: concept_start_def)

lemma path_exists_concept_start [simp]:
  "path_exists (concept_start cid c od v w) p \<longleftrightarrow> path_exists w p \<or> prefix p od"
  by (simp add: concept_start_def)

lemma run_concept_eq:
  assumes "map_of P cid = Some c" "map_of CONCEPT_DIRS cid = Some d"
  shows "run_concept P E k cid v q s bd w =
           variations_loop E c k (path_div bd d) v q s [1..v] 0 (concept_start cid c (path_div bd d) v w)"
  using assms by (simp add: run_concept_def concept_start_def Let_def)

lemma run_concept_Inr:
  assumes "run_concept P E k cid v q s bd w = (Inr n', w')"
  shows "\<exists>c d. map_of P cid = Some c \<and> map_of CONCEPT_DIRS cid = Some d"
  using assms unfolding run_concept_def by (auto split: option.splits)

lemma r3_iteration_count:
  assumes "r3_iteration P E k od t i key n w = (Inr n', w')"
  shows "n' = n \<or> n' = n + 1"
proof (cases "path_exists w (key_path od key)")
  case True
  then show ?thesis using assms by (simp add: r3_iteration_skip)
next
  case False
  show ?thesis
    using assms unfolding r3_iteration_generate [OF False]
    by (auto split: prod.splits sum.splits option.splits if_splits)
qed

lemma r3_loop_count:
  "r3_loop P E k od t i keys n w = (Inr n', w') \<Longrightarrow> n \<le> n' \<and> n' \<le> n + int (length keys)"
proof (induction keys arbitrary: i n w)
  case Nil
  then show ?case by simp
next
  case (Cons key keys)
  obtain x w1 where step: "r3_iteration P E k od t i key n w = (x, w1)"
    by (cases "r3_iteration P E k od t i key n w")
  show ?case
  proof (cases x)
    case (Inl e)
    then show ?thesis using Cons.prems step by simp
  next
    case (Inr m)
    then have rest: "r3_loop P E k od t (i + 1) keys m w1 = (Inr n', w')"
      using Cons.prems step by simp
    have "m = n \<or> m = n + 1" using r3_iteration_count step Inr by blast
    then show ?thesis using Cons.IH [OF rest] by auto
  qed
qed

section \<open>Iterations that generate and persist\<close>

lemma run_variation_delivered:
  assumes ne: "\<not> path_exists w (variation_path od i)"
    and n: "net E (ncalls w) (primary_request logo_cfg k (prompt c @ variation_suffix i) s q) = Responds r"
    and d: "delivers E r b" and o: "image_open E b = Some (wd, ht)"
  shows "run_variation E c k od v q s i n w =
     (Inr (n + 1),
      pace 1000 i v
        (print (saved_line (variation_path od i) wd ht)
          (persisted (variation_path od i) b
            (after_call (primary_request logo_cfg k (prompt c @ variation_suffix i) s q)
              (print (calling_line logo_cfg s q) (print (generating_line i v) w))))))"
proof -
  have n': "net E (ncalls (print (generating_line i v) w))
      (primary_request logo_cfg k (prompt c @ variation_suffix i) s q) = Responds r"
    using n by simp
  have b: "b \<noteq> []" using d by (simp add: delivers_def)
  show ?thesis
    unfolding run_variation_generate [OF ne] generate_image_def
      generate_image_with_delivers [OF n' d]
    using b o by (simp add: truthy_def)
qed

lemma r3_iteration_delivered:
  assumes ne: "\<not> path_exists w (key_path od key)" and p: "map_of P key = Some pr"
    and n: "net E (ncalls w) (primary_request round3_cfg k pr ''1024x1024'' ''high'') = Responds r"
    and d: "delivers E r b" and o: "image_open E b = Some (wd, ht)"
  shows "r3_iteration P E k od t i key n0 w =
     (Inr (n0 + 1),
      pace 1500 i t
        (print (saved_line (key_path od key) wd ht)
          (persisted (key_path od key) b
            (after_call (primary_request round3_cfg k pr ''1024x1024'' ''high'')
              (print (calling_line round3_cfg ''1024x1024'' ''high'') (r3_banner t i key w))))))"
proof -
  have n': "net E (ncalls (r3_banner t i key w))
      (primary_request round3_cfg k pr ''1024x1024'' ''high'') = Responds r"
    using n by (simp add: r3_banner_def)
  have b: "b \<noteq> []" using d by (simp add: delivers_def)
  show ?thesis
    unfolding r3_iteration_generate [OF ne] generate_image_r3_def
    using p b o by (simp add: generate_image_with_delivers [OF n' d] truthy_def)
qed

lemma env_always_image:
  "net (env_always out) m req = out"
  "delivers (env_always out) image_response [0x89, 0x50, 0x4E, 0x47]"
  "image_open (env_always out) [0x89, 0x50, 0x4E, 0x47] = Some (1024, 1024)"
  by (simp_all add: env_always_def delivers_def image_response_def is_success_def)


section \<open>Runs in which every request delivers an image\<close>

lemma path_exists_empty_world [simp]: "\<not> path_exists empty_world p"
  by (simp add: path_exists_def empty_world_def)

lemma path_exists_world_with [simp]: "path_exists (world_with p b) p' \<longleftrightarrow> p' = p"
  by (auto simp: path_exists_def world_with_def)

lemma path_parent_snoc: "y \<noteq> ''/'' \<Longrightarrow> path_parent (d @ [y]) = d"
  by (simp add: path_parent_def)

lemma variation_filename_not_root: "variation_filename i \<noteq> ''/''"
  by (simp add: variation_filename_def)

lemma variation_path_parent: "path_parent (variation_path od i) = od"
  by (simp add: variation_path_parts path_parent_snoc variation_filename_not_root)

lemma variation_path_not_prefix: "\<not> prefix (variation_path od i) od"
  by (simp add: variation_path_parts)

lemma variation_path_inj: "variation_path od i = variation_path od j \<longleftrightarrow> i = j"
  using variation_filename_inj by (auto simp: variation_path_parts)

lemma path_exists_persisted_variation:
  "path_exists (persisted (variation_path od i) b w) (variation_path od j)
     \<longleftrightarrow> i = j \<or> path_exists w (variation_path od j)"
  by (auto simp: path_exists_persisted variation_path_parent variation_path_not_prefix
      variation_path_inj)

lemma variations_loop_delivered:
  assumes E: "always_delivers E"
  shows "distinct js \<Longrightarrow> \<forall>i\<in>set js. \<not> path_exists w (variation_path od i) \<Longrightarrow>
     \<exists>w' evs. variations_loop E c k od v q s js n w = (Inr (n + int (length js)), w')
        \<and> ncalls w' = ncalls w + length js
        \<and> trace w' = trace w @ evs
        \<and> filter is_call evs
            = map (\<lambda>i. NetCall (primary_request logo_cfg k (prompt c @ variation_suffix i) s q)) js
        \<and> filter is_sleep evs = map (\<lambda>i. Sleep 1000) (filter (\<lambda>i. i < v) js)
        \<and> (\<forall>p. path_exists w p \<longrightarrow> path_exists w' p)"
proof (induction js arbitrary: n w)
  case Nil
  then show ?case by simp
next
  case (Cons i js)
  let ?req = "primary_request logo_cfg k (prompt c @ variation_suffix i) s q"
  from E obtain r b where n: "net E (ncalls w) ?req = Responds r" and d: "delivers E r b"
    unfolding always_delivers_def by blast
  from d obtain wd ht where o: "image_open E b = Some (wd, ht)"
    unfolding delivers_def by (cases "image_open E b") auto
  have ne: "\<not> path_exists w (variation_path od i)" using Cons.prems by simp
  let ?w0 = "print (saved_line (variation_path od i) wd ht)
          (persisted (variation_path od i) b
            (after_call ?req (print (calling_line logo_cfg s q) (print (generating_line i v) w))))"
  let ?w1 = "pace 1000 i v ?w0"
  have step: "run_variation E c k od v q s i n w = (Inr (n + 1), ?w1)"
    by (rule run_variation_delivered [OF ne n d o])
  have dj: "distinct js" and nj: "i \<notin> set js" using Cons.prems by simp_all
  have rest: "\<forall>j\<in>set js. \<not> path_exists ?w1 (variation_path od j)"
    using Cons.prems nj by (auto simp: path_exists_persisted_variation)
  from Cons.IH [OF dj rest, of "n + 1"] obtain w' evs where
    l: "variations_loop E c k od v q s js (n + 1) ?w1 = (Inr (n + 1 + int (length js)), w')"
    and c: "ncalls w' = ncalls ?w1 + length js" and t: "trace w' = trace ?w1 @ evs"
    and fc: "filter is_call evs
            = map (\<lambda>i. NetCall (primary_request logo_cfg k (prompt c @ variation_suffix i) s q)) js"
    and fs: "filter is_sleep evs = map (\<lambda>i. Sleep 1000) (filter (\<lambda>i. i < v) js)"
    and m: "\<forall>p. path_exists ?w1 p \<longrightarrow> path_exists w' p"
    by blast
  let ?evs = "[Print (generating_line i v), Print (calling_line logo_cfg s q), NetCall ?req,
      Mkdir (path_parent (variation_path od i)), WriteFile (variation_path od i) b,
      Print (saved_line (variation_path od i) wd ht)] @ (if i < v then [Sleep 1000] else []) @ evs"
  have "variations_loop E c k od v q s (i # js) n w = (Inr (n + int (length (i # js))), w')"
    using step l by (simp add: add.commute add.left_commute)
  moreover have "ncalls w' = ncalls w + length (i # js)" using c by simp
  moreover have "trace w' = trace w @ ?evs" using t by simp
  moreover have "filter is_call ?evs
      = map (\<lambda>i. NetCall (primary_request logo_cfg k (prompt c @ variation_suffix i) s q)) (i # js)"
    using fc by simp
  moreover have "filter is_sleep ?evs = map (\<lambda>i. Sleep 1000) (filter (\<lambda>i. i < v) (i # js))"
    using fs by simp
  moreover have "\<forall>p. path_exists w p \<longrightarrow> path_exists w' p"
    using m by (simp add: path_exists_persisted)
  ultimately show ?case by blast
qed

lemma run_concept_delivered:
  assumes E: "always_delivers E"
    and c: "map_of P cid = Some c" and d: "map_of CONCEPT_DIRS cid = Some d"
    and ne: "\<forall>i\<in>set [1..v]. \<not> path_exists w (variation_path (path_div bd d) i)"
  shows "\<exists>w'. run_concept P E k cid v q s bd w = (Inr (int (length [1..v])), w')
           \<and> ncalls w' = ncalls w + length [1..v]"
proof -
  have ne': "\<forall>i\<in>set [1..v].
      \<not> path_exists (concept_start cid c (path_div bd d) v w) (variation_path (path_div bd d) i)"
    using ne by (simp add: variation_path_not_prefix)
  from variations_loop_delivered [OF E distinct_upto ne', of c k v q s 0]
  show ?thesis unfolding run_concept_eq [OF c d] by auto
qed

lemma sample_tables:
  "map_of (CONCEPT_PROMPTS (\<lambda>i. ''P'')) 1 = Some \<lparr>name = ''The Kiln Mark'', prompt = ''P''\<rparr>"
  "map_of CONCEPT_DIRS 1 = Some ''concepts/01-kiln-mark''"
  by (simp_all add: CONCEPT_PROMPTS_def CONCEPT_DIRS_def)

lemma upto_samples: "[1..1] = [1]" "[1..2] = [1, 2]" "[1..3] = [1, 2, 3]"
  by (simp_all add: upto.simps)


lemma env_always_always_delivers: "always_delivers (env_always (Responds image_response))"
  unfolding always_delivers_def using env_always_image by blast

lemma key_path_not_prefix: "CHR ''/'' \<notin> set key \<Longrightarrow> \<not> prefix (key_path od key) od"
  by (simp add: key_path_parts)

lemma result_collapse: "fst x = a \<Longrightarrow> x = (a, snd x)"
  by (cases x) simp

text \<open>
  Claim C9. In both scripts the loop starts with the success count 0. An iteration that
  returns leaves the count as it was or adds exactly 1: a skipped iteration adds 1 and does
  nothing else but log; an iteration that generates adds 1 if the requestor returned
  non-empty bytes (which are then on disk) and adds nothing otherwise. So the count never
  decreases, and a loop that ends has added at most the number of its iterations: the
  result of \<^verbatim>\<open>run_concept\<close> lies between 0 and the number of variations, and \<^verbatim>\<open>success\<close> in
  \<^verbatim>\<open>generate_round3.py\<close> between 0 and \<^verbatim>\<open>total\<close>.
\<close>

theorem C9_success_count:
  "(map_of P cid = Some c \<and> map_of CONCEPT_DIRS cid = Some d \<longrightarrow>
      run_concept P E k cid v q s bd w =
        variations_loop E c k (path_div bd d) v q s [1..v] 0 (concept_start cid c (path_div bd d) v w))
   \<and> (run_variation E c k od v q s i n w = (Inr n', w') \<longrightarrow> n' = n \<or> n' = n + 1)
   \<and> (path_exists w (variation_path od i) \<longrightarrow>
        run_variation E c k od v q s i n w = (Inr (n + 1), print (skip_line i v) w))
   \<and> (\<not> path_exists w (variation_path od i) \<and> run_variation E c k od v q s i n w = (Inr n', w')
        \<and> generate_image E k (prompt c @ variation_suffix i) s q (print (generating_line i v) w)
             = (Inr ob, w2) \<longrightarrow>
        (if truthy ob then n' = n + 1 \<and> files w' (variation_path od i) = ob else n' = n))
   \<and> (variations_loop E c k od v q s js n w = (Inr n', w') \<longrightarrow>
        n \<le> n' \<and> n' \<le> n + int (length js))
   \<and> (run_concept P E k cid v q s bd w = (Inr n', w') \<longrightarrow> 0 \<le> n' \<and> n' \<le> max 0 v)
   \<and> (r3_iteration R E k od t i key n w = (Inr n', w') \<longrightarrow> n' = n \<or> n' = n + 1)
   \<and> (path_exists w (key_path od key) \<longrightarrow>
        r3_iteration R E k od t i key n w = (Inr (n + 1), print (r3_skip_line t i key) w))
   \<and> (r3_loop R E k od t i keys n w = (Inr n', w') \<longrightarrow> n \<le> n' \<and> n' \<le> n + int (length keys))
   \<and> (main_r3 R E ek argv sd w = (Inr (n', t'), w') \<longrightarrow>
        0 \<le> n' \<and> n' \<le> t' \<and> t' = int (length (keys_to_run R argv)))
   \<and> (ek = Some key' \<and> key' \<noteq> []
        \<and> r3_loop R E key' (OUTPUT_DIR sd) (int (length (keys_to_run R argv))) 1
              (keys_to_run R argv) 0 (mkdir (OUTPUT_DIR sd) w) = (Inr n', w') \<longrightarrow>
        fst (main_r3 R E ek argv sd w) = Inr (n', int (length (keys_to_run R argv))))"
proof (intro conjI impI)
  assume "map_of P cid = Some c \<and> map_of CONCEPT_DIRS cid = Some d"
  then show "run_concept P E k cid v q s bd w =
        variations_loop E c k (path_div bd d) v q s [1..v] 0 (concept_start cid c (path_div bd d) v w)"
    by (simp add: run_concept_eq)
next
  assume "run_variation E c k od v q s i n w = (Inr n', w')"
  then show "n' = n \<or> n' = n + 1" by (rule run_variation_count)
next
  assume "path_exists w (variation_path od i)"
  then show "run_variation E c k od v q s i n w = (Inr (n + 1), print (skip_line i v) w)"
    by (rule run_variation_skip)
next
  assume a: "\<not> path_exists w (variation_path od i) \<and> run_variation E c k od v q s i n w = (Inr n', w')
        \<and> generate_image E k (prompt c @ variation_suffix i) s q (print (generating_line i v) w)
             = (Inr ob, w2)"
  then have ne: "\<not> path_exists w (variation_path od i)" by simp
  show "if truthy ob then n' = n + 1 \<and> files w' (variation_path od i) = ob else n' = n"
    using a unfolding run_variation_generate [OF ne]
    by (auto simp: truthy_def split: option.splits if_splits)
next
  assume "variations_loop E c k od v q s js n w = (Inr n', w')"
  from variations_loop_count [OF this] show "n \<le> n'" "n' \<le> n + int (length js)" by simp_all
next
  assume a: "run_concept P E k cid v q s bd w = (Inr n', w')"
  from run_concept_Inr [OF a] obtain c d where
    cd: "map_of P cid = Some c" "map_of CONCEPT_DIRS cid = Some d" by blast
  have "0 \<le> n' \<and> n' \<le> 0 + int (length [1..v])"
    by (rule variations_loop_count) (use a in \<open>simp add: run_concept_eq [OF cd]\<close>)
  then show "0 \<le> n'" "n' \<le> max 0 v" by (auto simp: max_def split: if_splits)
next
  assume "r3_iteration R E k od t i key n w = (Inr n', w')"
  then show "n' = n \<or> n' = n + 1" by (rule r3_iteration_count)
next
  assume "path_exists w (key_path od key)"
  then show "r3_iteration R E k od t i key n w = (Inr (n + 1), print (r3_skip_line t i key) w)"
    by (rule r3_iteration_skip)
next
  assume "r3_loop R E k od t i keys n w = (Inr n', w')"
  from r3_loop_count [OF this] show "n \<le> n'" "n' \<le> n + int (length keys)" by simp_all
next
  assume a: "main_r3 R E ek argv sd w = (Inr (n', t'), w')"
  then have t: "t' = int (length (keys_to_run R argv))"
    unfolding main_r3_def Let_def by (auto split: if_splits prod.splits sum.splits)
  from a obtain w1 where "r3_loop R E (the ek) (OUTPUT_DIR sd) t' 1 (keys_to_run R argv) 0
      (mkdir (OUTPUT_DIR sd) w) = (Inr n', w1)"
    unfolding main_r3_def Let_def by (auto split: if_splits prod.splits sum.splits)
  from r3_loop_count [OF this] show "0 \<le> n'" "n' \<le> t'" "t' = int (length (keys_to_run R argv))"
    using t by simp_all
next
  assume "ek = Some key' \<and> key' \<noteq> []
        \<and> r3_loop R E key' (OUTPUT_DIR sd) (int (length (keys_to_run R argv))) 1
              (keys_to_run R argv) 0 (mkdir (OUTPUT_DIR sd) w) = (Inr n', w')"
  then show "fst (main_r3 R E ek argv sd w) = Inr (n', int (length (keys_to_run R argv)))"
    by (simp add: main_r3_def Let_def)
qed

theorem C9_success_count_witness:
  "fst (run_concept (CONCEPT_PROMPTS (\<lambda>i. ''P'')) (env_always (Responds image_response)) ''sk-test''
          1 2 ''high'' ''1024x1024'' [''/'', ''srv''] empty_world) = Inr 2
   \<and> (0 :: int) \<le> 2 \<and> (2 :: int) \<le> max 0 2
   \<and> run_variation (env_always (Responds image_response)) \<lparr>name = ''The Kiln Mark'', prompt = ''P''\<rparr>
        ''sk-test'' [''/'', ''srv''] 2 ''high'' ''1024x1024'' 1 0
        (world_with (variation_path [''/'', ''srv''] 1) [0x89])
       = (Inr 1, print (skip_line 1 2) (world_with (variation_path [''/'', ''srv''] 1) [0x89]))
   \<and> r3_iteration [(''logo'', ''P'')] (env_always (Responds image_response)) ''sk-test''
        [''/'', ''srv''] 1 1 ''logo'' 0 (world_with (key_path [''/'', ''srv''] ''logo'') [0x89])
       = (Inr 1, print (r3_skip_line 1 1 ''logo'') (world_with (key_path [''/'', ''srv''] ''logo'') [0x89]))"
proof -
  let ?E = "env_always (Responds image_response)"
  let ?P = "CONCEPT_PROMPTS (\<lambda>i. ''P'')"
  let ?c = "\<lparr>name = ''The Kiln Mark'', prompt = ''P''\<rparr>"
  let ?od = "[''/'', ''srv'']"
  let ?run = "run_concept ?P ?E ''sk-test'' 1 2 ''high'' ''1024x1024'' ?od empty_world"
  have "\<exists>w'. ?run = (Inr (int (length [1..2])), w')
      \<and> ncalls w' = ncalls empty_world + length [1..2]"
    by (rule run_concept_delivered [OF env_always_always_delivers sample_tables]) simp
  then have f: "fst ?run = Inr 2" by (auto simp: upto_samples)
  note T = C9_success_count [where P = ?P and E = ?E and k = "''sk-test''" and cid = 1 and v = 2
      and q = "''high''" and s = "''1024x1024''" and bd = ?od and w = empty_world
      and n' = 2 and w' = "snd ?run"]
  note T6 = T [THEN conjunct2, THEN conjunct2, THEN conjunct2, THEN conjunct2, THEN conjunct2,
      THEN conjunct1, THEN mp]
  have b: "(0 :: int) \<le> 2 \<and> (2 :: int) \<le> max 0 2"
    by (rule T6 [OF result_collapse [OF f]])
  note S = C9_success_count [where E = ?E and k = "''sk-test''" and v = 2 and c = ?c
      and q = "''high''" and s = "''1024x1024''" and od = ?od and i = 1 and n = 0
      and w = "world_with (variation_path ?od 1) [0x89]"]
  note S3 = S [THEN conjunct2, THEN conjunct2, THEN conjunct1, THEN mp]
  have h3: "path_exists (world_with (variation_path ?od 1) [0x89]) (variation_path ?od 1)" by simp
  note R = C9_success_count [where E = ?E and k = "''sk-test''" and R = "[(''logo'', ''P'')]"
      and od = ?od and i = 1 and t = 1 and n = 0 and key = "''logo''"
      and w = "world_with (key_path ?od ''logo'') [0x89]"]
  note R8 = R [THEN conjunct2, THEN conjunct2, THEN conjunct2, THEN conjunct2, THEN conjunct2,
      THEN conjunct2, THEN conjunct2, THEN conjunct1, THEN mp]
  have h8: "path_exists (world_with (key_path ?od ''logo'') [0x89]) (key_path ?od ''logo'')" by simp
  show ?thesis using f b S3 [OF h3] R8 [OF h8] by simp
qed

section \<open>The events of one iteration\<close>

lemma print_or_call_not_sleep: "is_print e \<or> is_call e \<Longrightarrow> \<not> is_sleep e"
  by (cases e) auto

lemma run_variation_generate_trace:
  assumes ne: "\<not> path_exists w (variation_path od i)"
    and r: "run_variation E c k od v q s i n w = (x, w')"
  shows "\<exists>body. trace w' = trace w @ Print (generating_line i v) # Print (calling_line logo_cfg s q)
             # NetCall (primary_request logo_cfg k (prompt c @ variation_suffix i) s q)
             # body @ (if i < v \<and> \<not> isl x then [Sleep 1000] else [])
          \<and> (\<forall>e\<in>set body. \<not> is_sleep e)
          \<and> ncalls w < ncalls w'
          \<and> (\<forall>p. path_exists w p \<longrightarrow> path_exists w' p)"
proof -
  let ?w1 = "print (generating_line i v) w"
  obtain y w2 where g: "generate_image_with logo_cfg E k (prompt c @ variation_suffix i) s q ?w1 = (y, w2)"
    by (cases "generate_image_with logo_cfg E k (prompt c @ variation_suffix i) s q ?w1")
  from generate_image_with_effects [OF g] obtain evs where
    f: "files w2 = files w" and d: "dirs w2 = dirs w" and c: "ncalls w < ncalls w2"
    and t: "trace w2 = trace w @ Print (generating_line i v) # Print (calling_line logo_cfg s q)
             # NetCall (primary_request logo_cfg k (prompt c @ variation_suffix i) s q) # evs"
    and e: "\<forall>e\<in>set evs. is_print e \<or> is_call e"
    by auto
  have e': "\<forall>e\<in>set evs. \<not> is_sleep e" using e print_or_call_not_sleep by blast
  have pe: "\<And>p. path_exists w p \<Longrightarrow> path_exists w2 p" using f d by (simp add: path_exists_def)
  have r': "(case y of
        Inl e \<Rightarrow> (Inl e, w2)
      | Inr ob \<Rightarrow>
          if truthy ob then
            (case image_open E (the ob) of
               None \<Rightarrow> (Inl UnidentifiedImageError, persisted (variation_path od i) (the ob) w2)
             | Some (wd, ht) \<Rightarrow>
                 (Inr (n + 1),
                  pace 1000 i v
                    (print (saved_line (variation_path od i) wd ht)
                      (persisted (variation_path od i) (the ob) w2))))
          else (Inr n, pace 1000 i v (print (failed_line i) w2))) = (x, w')"
    using r unfolding run_variation_generate [OF ne] generate_image_def g by (simp split: sum.splits)
  show ?thesis
  proof (cases y)
    case (Inl err)
    then have "x = Inl err" "w' = w2" using r' by simp_all
    then show ?thesis using t e' c pe by auto
  next
    case (Inr ob)
    show ?thesis
    proof (cases "truthy ob")
      case False
      then have x: "x = Inr n" and w: "w' = pace 1000 i v (print (failed_line i) w2)"
        using r' Inr by simp_all
      have "trace w' = trace w @ Print (generating_line i v) # Print (calling_line logo_cfg s q)
             # NetCall (primary_request logo_cfg k (prompt c @ variation_suffix i) s q)
             # (evs @ [Print (failed_line i)]) @ (if i < v \<and> \<not> isl x then [Sleep 1000] else [])"
        using t x w by simp
      moreover have "\<forall>e\<in>set (evs @ [Print (failed_line i)]). \<not> is_sleep e" using e' by simp
      moreover have "ncalls w < ncalls w'" using c w by simp
      moreover have "\<forall>p. path_exists w p \<longrightarrow> path_exists w' p" using pe w by simp
      ultimately show ?thesis by blast
    next
      case True
      let ?p = "variation_path od i"
      show ?thesis
      proof (cases "image_open E (the ob)")
        case None
        then have x: "x = Inl UnidentifiedImageError" and w: "w' = persisted ?p (the ob) w2"
          using r' Inr True by simp_all
        have "trace w' = trace w @ Print (generating_line i v) # Print (calling_line logo_cfg s q)
             # NetCall (primary_request logo_cfg k (prompt c @ variation_suffix i) s q)
             # (evs @ [Mkdir (path_parent ?p), WriteFile ?p (the ob)])
             @ (if i < v \<and> \<not> isl x then [Sleep 1000] else [])"
          using t x w by simp
        moreover have "\<forall>e\<in>set (evs @ [Mkdir (path_parent ?p), WriteFile ?p (the ob)]). \<not> is_sleep e"
          using e' by simp
        moreover have "ncalls w < ncalls w'" using c w by simp
        moreover have "\<forall>p. path_exists w p \<longrightarrow> path_exists w' p"
          using pe w by (simp add: path_exists_persisted)
        ultimately show ?thesis by blast
      next
        case (Some dims)
        obtain wd ht where dims: "dims = (wd, ht)" by (cases dims)
        have x: "x = Inr (n + 1)"
          and w: "w' = pace 1000 i v (print (saved_line ?p wd ht) (persisted ?p (the ob) w2))"
          using r' Inr True Some dims by simp_all
        have "trace w' = trace w @ Print (generating_line i v) # Print (calling_line logo_cfg s q)
             # NetCall (primary_request logo_cfg k (prompt c @ variation_suffix i) s q)
             # (evs @ [Mkdir (path_parent ?p), WriteFile ?p (the ob), Print (saved_line ?p wd ht)])
             @ (if i < v \<and> \<not> isl x then [Sleep 1000] else [])"
          using t x w by simp
        moreover have "\<forall>e\<in>set (evs @ [Mkdir (path_parent ?p), WriteFile ?p (the ob),
            Print (saved_line ?p wd ht)]). \<not> is_sleep e"
          using e' by simp
        moreover have "ncalls w < ncalls w'" using c w by simp
        moreover have "\<forall>p. path_exists w p \<longrightarrow> path_exists w' p"
          using pe w by (simp add: path_exists_persisted)
        ultimately show ?thesis by blast
      qed
    qed
  qed
qed

lemma r3_banner_fields [simp]:
  "ncalls (r3_banner t i key w) = ncalls w" "files (r3_banner t i key w) = files w"
  "dirs (r3_banner t i key w) = dirs w"
  by (simp_all add: r3_banner_def)

lemma r3_banner_trace:
  "\<exists>evs. trace (r3_banner t i key w) = trace w @ evs \<and> (\<forall>e\<in>set evs. is_print e)"
  by (simp add: r3_banner_def)

lemma r3_iteration_generate_trace:
  assumes ne: "\<not> path_exists w (key_path od key)" and pr: "map_of P key = Some pr"
    and r: "r3_iteration P E k od t i key n w = (x, w')"
  shows "\<exists>body. trace w' = trace (r3_banner t i key w)
             @ Print (calling_line round3_cfg ''1024x1024'' ''high'')
             # NetCall (primary_request round3_cfg k pr ''1024x1024'' ''high'')
             # body @ (if i < t \<and> \<not> isl x then [Sleep 1500] else [])
          \<and> (\<forall>e\<in>set body. \<not> is_sleep e)
          \<and> ncalls w < ncalls w'
          \<and> (\<forall>p. path_exists w p \<longrightarrow> path_exists w' p)"
proof -
  let ?w1 = "r3_banner t i key w"
  obtain y w2 where g: "generate_image_with round3_cfg E k pr ''1024x1024'' ''high'' ?w1 = (y, w2)"
    by (cases "generate_image_with round3_cfg E k pr ''1024x1024'' ''high'' ?w1")
  from generate_image_with_effects [OF g] obtain evs where
    f: "files w2 = files w" and d: "dirs w2 = dirs w" and c: "ncalls w < ncalls w2"
    and t: "trace w2 = trace ?w1 @ Print (calling_line round3_cfg ''1024x1024'' ''high'')
             # NetCall (primary_request round3_cfg k pr ''1024x1024'' ''high'') # evs"
    and e: "\<forall>e\<in>set evs. is_print e \<or> is_call e"
    by auto
  have e': "\<forall>e\<in>set evs. \<not> is_sleep e" using e print_or_call_not_sleep by blast
  have pe: "\<And>p. path_exists w p \<Longrightarrow> path_exists w2 p" using f d by (simp add: path_exists_def)
  let ?p = "key_path od key"
  have r': "(case y of
        Inl e \<Rightarrow> (Inl e, w2)
      | Inr ob \<Rightarrow>
          if truthy ob then
            (case image_open E (the ob) of
               None \<Rightarrow> (Inl UnidentifiedImageError, persisted ?p (the ob) w2)
             | Some (wd, ht) \<Rightarrow>
                 (Inr (n + 1),
                  pace 1500 i t (print (saved_line ?p wd ht) (persisted ?p (the ob) w2))))
          else (Inr n, pace 1500 i t (print (''  FAILED: '' @ key) w2))) = (x, w')"
    using r pr unfolding r3_iteration_generate [OF ne] generate_image_r3_def
    by (simp add: g split: sum.splits)
  show ?thesis
  proof (cases y)
    case (Inl err)
    then have "x = Inl err" "w' = w2" using r' by simp_all
    then show ?thesis using t e' c pe by auto
  next
    case (Inr ob)
    show ?thesis
    proof (cases "truthy ob")
      case False
      then have x: "x = Inr n" and w: "w' = pace 1500 i t (print (''  FAILED: '' @ key) w2)"
        using r' Inr by simp_all
      have "trace w' = trace ?w1 @ Print (calling_line round3_cfg ''1024x1024'' ''high'')
             # NetCall (primary_request round3_cfg k pr ''1024x1024'' ''high'')
             # (evs @ [Print (''  FAILED: '' @ key)]) @ (if i < t \<and> \<not> isl x then [Sleep 1500] else [])"
        using t x w by simp
      moreover have "\<forall>e\<in>set (evs @ [Print (''  FAILED: '' @ key)]). \<not> is_sleep e" using e' by simp
      moreover have "ncalls w < ncalls w'" using c w by simp
      moreover have "\<forall>p. path_exists w p \<longrightarrow> path_exists w' p" using pe w by simp
      ultimately show ?thesis by blast
    next
      case True
      show ?thesis
      proof (cases "image_open E (the ob)")
        case None
        then have x: "x = Inl UnidentifiedImageError" and w: "w' = persisted ?p (the ob) w2"
          using r' Inr True by simp_all
        have "trace w' = trace ?w1 @ Print (calling_line round3_cfg ''1024x1024'' ''high'')
             # NetCall (primary_request round3_cfg k pr ''1024x1024'' ''high'')
             # (evs @ [Mkdir (path_parent ?p), WriteFile ?p (the ob)])
             @ (if i < t \<and> \<not> isl x then [Sleep 1500] else [])"
          using t x w by simp
        moreover have "\<forall>e\<in>set (evs @ [Mkdir (path_parent ?p), WriteFile ?p (the ob)]). \<not> is_sleep e"
          using e' by simp
        moreover have "ncalls w < ncalls w'" using c w by simp
        moreover have "\<forall>p. path_exists w p \<longrightarrow> path_exists w' p"
          using pe w by (simp add: path_exists_persisted)
        ultimately show ?thesis by blast
      next
        case (Some dims)
        obtain wd ht where dims: "dims = (wd, ht)" by (cases dims)
        have x: "x = Inr (n + 1)"
          and w: "w' = pace 1500 i t (print (saved_line ?p wd ht) (persisted ?p (the ob) w2))"
          using r' Inr True Some dims by simp_all
        have "trace w' = trace ?w1 @ Print (calling_line round3_cfg ''1024x1024'' ''high'')
             # NetCall (primary_request round3_cfg k pr ''1024x1024'' ''high'')
             # (evs @ [Mkdir (path_parent ?p), WriteFile ?p (the ob), Print (saved_line ?p wd ht)])
             @ (if i < t \<and> \<not> isl x then [Sleep 1500] else [])"
          using t x w by simp
        moreover have "\<forall>e\<in>set (evs @ [Mkdir (path_parent ?p), WriteFile ?p (the ob),
            Print (saved_line ?p wd ht)]). \<not> is_sleep e"
          using e' by simp
        moreover have "ncalls w < ncalls w'" using c w by simp
        moreover have "\<forall>p. path_exists w p \<longrightarrow> path_exists w' p"
          using pe w by (simp add: path_exists_persisted)
        ultimately show ?thesis by blast
      qed
    qed
  qed
qed


text \<open>
  Claim C3. The loop of \<^verbatim>\<open>run_concept\<close> runs over the indices from 1 to the number of
  variations. An iteration whose output path does not exist logs its start and calls
  \<^verbatim>\<open>generate_image\<close>, whose first request carries the prompt of the concept followed by the
  suffix for the index: nothing for the index 1, so that the prompt sent is the base prompt
  itself, and for an index \<open>i\<close> from 2 on the entry \<open>(i - 2) mod 5\<close> of the list of five
  hints. The suffix therefore repeats with period 5; for 7 it is the one for 2.
\<close>

theorem C3_variation_hint:
  "length variation_hints = 5
   \<and> variation_suffix 1 = []
   \<and> prompt c @ variation_suffix 1 = prompt c
   \<and> (2 \<le> i \<longrightarrow> variation_suffix i = variation_hints ! nat ((i - 2) mod 5))
   \<and> variation_suffix 2 = '' Explore a different compositional arrangement.''
   \<and> variation_suffix 7 = variation_suffix 2
   \<and> (2 \<le> i \<longrightarrow> variation_suffix (i + 5) = variation_suffix i)
   \<and> (i \<in> set [1..v] \<longleftrightarrow> 1 \<le> i \<and> i \<le> v)
   \<and> (\<not> path_exists w (variation_path od i) \<longrightarrow>
        (\<exists>rest. events_since w (snd (run_variation E c k od v q s i n w))
           = [Print (generating_line i v), Print (calling_line logo_cfg s q),
              NetCall (primary_request logo_cfg k (prompt c @ variation_suffix i) s q)] @ rest))
   \<and> primary_request logo_cfg k p s q =
        POST API_URL [(''Authorization'', ''Bearer '' @ k)]
          [(''model'', JStr ''gpt-image-1''), (''prompt'', JStr p), (''size'', JStr s),
           (''quality'', JStr q), (''n'', JNum 1), (''output_format'', JStr ''png'')] 120"
proof (intro conjI impI)
  show "length variation_hints = 5" by (simp add: variation_hints_def)
  show "variation_suffix 1 = []" by (simp add: variation_suffix_def)
  then show "prompt c @ variation_suffix 1 = prompt c" by simp
  show "variation_suffix 2 = '' Explore a different compositional arrangement.''"
    by (simp add: variation_suffix_def variation_hints_def)
  show "variation_suffix 7 = variation_suffix 2" by (simp add: variation_suffix_def variation_hints_def)
  show "(i \<in> set [1..v]) = (1 \<le> i \<and> i \<le> v)" by simp
  show "primary_request logo_cfg k p s q =
        POST API_URL [(''Authorization'', ''Bearer '' @ k)]
          [(''model'', JStr ''gpt-image-1''), (''prompt'', JStr p), (''size'', JStr s),
           (''quality'', JStr q), (''n'', JNum 1), (''output_format'', JStr ''png'')] 120"
    by (simp add: primary_request_def primary_payload_def auth_headers_def logo_cfg_def)
next
  assume "2 \<le> i"
  then show "variation_suffix i = variation_hints ! nat ((i - 2) mod 5)"
    by (simp add: variation_suffix_def variation_hints_def)
next
  assume i: "2 \<le> i"
  have "(i + 5 - 2) mod 5 = (i - 2) mod 5" by presburger
  then show "variation_suffix (i + 5) = variation_suffix i"
    using i by (simp add: variation_suffix_def variation_hints_def)
next
  assume ne: "\<not> path_exists w (variation_path od i)"
  obtain x w' where r: "run_variation E c k od v q s i n w = (x, w')"
    by (cases "run_variation E c k od v q s i n w")
  from run_variation_generate_trace [OF ne r] obtain body where
    "trace w' = trace w @ Print (generating_line i v) # Print (calling_line logo_cfg s q)
             # NetCall (primary_request logo_cfg k (prompt c @ variation_suffix i) s q)
             # body @ (if i < v \<and> \<not> isl x then [Sleep 1000] else [])"
    by blast
  then have "events_since w w'
           = [Print (generating_line i v), Print (calling_line logo_cfg s q),
              NetCall (primary_request logo_cfg k (prompt c @ variation_suffix i) s q)]
             @ (body @ (if i < v \<and> \<not> isl x then [Sleep 1000] else []))"
    by (simp add: events_since_def)
  then show "\<exists>rest. events_since w (snd (run_variation E c k od v q s i n w))
           = [Print (generating_line i v), Print (calling_line logo_cfg s q),
              NetCall (primary_request logo_cfg k (prompt c @ variation_suffix i) s q)] @ rest"
    unfolding r by (intro exI) simp
qed

theorem C3_variation_hint_witness:
  "variation_suffix 7 = '' Explore a different compositional arrangement.''
   \<and> variation_suffix 12 = variation_suffix 7
   \<and> (\<exists>rest. events_since empty_world
         (snd (run_variation (env_always Raises) \<lparr>name = ''The Kiln Mark'', prompt = ''P''\<rparr> ''sk-test''
                [''/'', ''srv''] 7 ''high'' ''1024x1024'' 7 0 empty_world))
         = [Print (generating_line 7 7), Print (calling_line logo_cfg ''1024x1024'' ''high''),
            NetCall (primary_request logo_cfg ''sk-test''
              (''P'' @ '' Explore a different compositional arrangement.'') ''1024x1024'' ''high'')] @ rest)"
proof -
  note T = C3_variation_hint [where i = 7 and w = empty_world and od = "[''/'', ''srv'']"
      and E = "env_always Raises" and c = "\<lparr>name = ''The Kiln Mark'', prompt = ''P''\<rparr>"
      and k = "''sk-test''" and v = 7 and q = "''high''" and s = "''1024x1024''" and n = 0]
  note T4 = T [THEN conjunct2, THEN conjunct2, THEN conjunct2, THEN conjunct1, THEN mp]
  note T5 = T [THEN conjunct2, THEN conjunct2, THEN conjunct2, THEN conjunct2, THEN conjunct1]
  note T6 = T [THEN conjunct2, THEN conjunct2, THEN conjunct2, THEN conjunct2, THEN conjunct2,
      THEN conjunct1]
  note T7 = T [THEN conjunct2, THEN conjunct2, THEN conjunct2, THEN conjunct2, THEN conjunct2,
      THEN conjunct2, THEN conjunct1, THEN mp]
  note T9 = T [THEN conjunct2, THEN conjunct2, THEN conjunct2, THEN conjunct2, THEN conjunct2,
      THEN conjunct2, THEN conjunct2, THEN conjunct2, THEN conjunct1, THEN mp]
  have h: "(2 :: int) \<le> 7" by simp
  have s7: "variation_suffix 7 = '' Explore a different compositional arrangement.''"
    using T6 T5 by simp
  have s12: "variation_suffix 12 = variation_suffix 7" using T7 [OF h] by simp
  have ne: "\<not> path_exists empty_world (variation_path [''/'', ''srv''] 7)" by simp
  show ?thesis using s7 s12 T9 [OF ne] by simp
qed

section \<open>Pauses\<close>

lemma no_sleep_no_split:
  "\<forall>e\<in>set xs. \<not> is_sleep e \<Longrightarrow> xs \<noteq> pre @ Sleep ms # post"
  by auto

lemma last_sleep_split:
  "\<forall>e\<in>set xs. \<not> is_sleep e \<Longrightarrow> xs @ [Sleep d] = pre @ Sleep ms # post
     \<Longrightarrow> pre = xs \<and> ms = d \<and> post = []"
proof (induction xs arbitrary: pre)
  case Nil
  then show ?case by (cases pre) auto
next
  case (Cons a xs)
  show ?case
  proof (cases pre)
    case Nil
    then show ?thesis using Cons.prems by auto
  next
    case (Cons b pre')
    then have "xs @ [Sleep d] = pre' @ Sleep ms # post" "a = b" using Cons.prems by auto
    then show ?thesis using Cons.IH [of pre'] Cons.prems(1) Cons by auto
  qed
qed

lemma pauses_after_calls_no_sleep:
  "\<forall>e\<in>set xs. \<not> is_sleep e \<Longrightarrow> pauses_after_calls d xs"
  unfolding pauses_after_calls_def using no_sleep_no_split by blast

lemma pauses_after_calls_last:
  assumes "\<forall>e\<in>set xs. \<not> is_sleep e" "\<exists>e\<in>set xs. is_call e"
  shows "pauses_after_calls d (xs @ [Sleep d])"
  unfolding pauses_after_calls_def using last_sleep_split [OF assms(1)] assms(2) by blast

lemma pauses_after_calls_append:
  assumes A: "pauses_after_calls d xs" and B: "pauses_after_calls d ys"
  shows "pauses_after_calls d (xs @ ys)"
  unfolding pauses_after_calls_def
proof (intro allI impI)
  fix pre ms post
  assume eq: "xs @ ys = pre @ Sleep ms # post"
  then consider us where "xs = pre @ us" "us @ ys = Sleep ms # post"
    | us where "xs @ us = pre" "ys = us @ Sleep ms # post"
    by (auto simp: append_eq_append_conv2)
  then show "ms = d \<and> (\<exists>e\<in>set pre. is_call e)"
  proof cases
    case 1
    show ?thesis
    proof (cases us)
      case Nil
      then have "ys = [] @ Sleep ms # post" using 1 by simp
      then show ?thesis using B unfolding pauses_after_calls_def by fastforce
    next
      case (Cons u us')
      then have "xs = pre @ Sleep ms # us'" using 1 by simp
      then show ?thesis using A unfolding pauses_after_calls_def by blast
    qed
  next
    case 2
    then have "ms = d \<and> (\<exists>e\<in>set us. is_call e)"
      using B unfolding pauses_after_calls_def by blast
    then show ?thesis using 2 by auto
  qed
qed

lemma run_variation_paced:
  assumes r: "run_variation E c k od v q s i n w = (x, w')"
  shows "\<exists>evs. trace w' = trace w @ evs \<and> pauses_after_calls 1000 evs"
proof (cases "path_exists w (variation_path od i)")
  case True
  then have "trace w' = trace w @ [Print (skip_line i v)]"
    using r by (auto simp: run_variation_skip)
  moreover have "pauses_after_calls 1000 [Print (skip_line i v)]"
    by (rule pauses_after_calls_no_sleep) simp
  ultimately show ?thesis by blast
next
  case False
  let ?req = "NetCall (primary_request logo_cfg k (prompt c @ variation_suffix i) s q)"
  from run_variation_generate_trace [OF False r] obtain body where
    t: "trace w' = trace w @ Print (generating_line i v) # Print (calling_line logo_cfg s q)
             # ?req # body @ (if i < v \<and> \<not> isl x then [Sleep 1000] else [])"
    and b: "\<forall>e\<in>set body. \<not> is_sleep e"
    by blast
  let ?xs = "Print (generating_line i v) # Print (calling_line logo_cfg s q) # ?req # body"
  have ns: "\<forall>e\<in>set ?xs. \<not> is_sleep e" using b by simp
  have ca: "\<exists>e\<in>set ?xs. is_call e" by simp
  have "pauses_after_calls 1000 (?xs @ (if i < v \<and> \<not> isl x then [Sleep 1000] else []))"
    using pauses_after_calls_last [OF ns ca] pauses_after_calls_no_sleep [OF ns] by simp
  moreover have "trace w' = trace w @ (?xs @ (if i < v \<and> \<not> isl x then [Sleep 1000] else []))"
    using t by simp
  ultimately show ?thesis by blast
qed

lemma variations_loop_paced:
  "variations_loop E c k od v q s js n w = (x, w')
     \<Longrightarrow> \<exists>evs. trace w' = trace w @ evs \<and> pauses_after_calls 1000 evs"
proof (induction js arbitrary: n w)
  case Nil
  then have "trace w' = trace w @ []" by simp
  moreover have "pauses_after_calls 1000 []" by (rule pauses_after_calls_no_sleep) simp
  ultimately show ?case by blast
next
  case (Cons i js)
  obtain y w1 where step: "run_variation E c k od v q s i n w = (y, w1)"
    by (cases "run_variation E c k od v q s i n w")
  from run_variation_paced [OF step] obtain evs1 where
    t1: "trace w1 = trace w @ evs1" and p1: "pauses_after_calls 1000 evs1" by blast
  show ?case
  proof (cases y)
    case (Inl e)
    then have "w' = w1" using Cons.prems step by simp
    then show ?thesis using t1 p1 by blast
  next
    case (Inr m)
    then have "variations_loop E c k od v q s js m w1 = (x, w')" using Cons.prems step by simp
    from Cons.IH [OF this] obtain evs2 where
      t2: "trace w' = trace w1 @ evs2" and p2: "pauses_after_calls 1000 evs2" by blast
    have "trace w' = trace w @ (evs1 @ evs2)" using t1 t2 by simp
    then show ?thesis using pauses_after_calls_append [OF p1 p2] by blast
  qed
qed

lemma r3_iteration_paced:
  assumes r: "r3_iteration P E k od t i key n w = (x, w')"
  shows "\<exists>evs. trace w' = trace w @ evs \<and> pauses_after_calls 1500 evs"
proof (cases "path_exists w (key_path od key)")
  case True
  then have "trace w' = trace w @ [Print (r3_skip_line t i key)]"
    using r by (auto simp: r3_iteration_skip)
  moreover have "pauses_after_calls 1500 [Print (r3_skip_line t i key)]"
    by (rule pauses_after_calls_no_sleep) simp
  ultimately show ?thesis by blast
next
  case False
  from r3_banner_trace [of t i key w] obtain hd where
    h: "trace (r3_banner t i key w) = trace w @ hd" and hp: "\<forall>e\<in>set hd. is_print e" by blast
  have hs: "\<forall>e\<in>set hd. \<not> is_sleep e" using hp print_or_call_not_sleep by blast
  show ?thesis
  proof (cases "map_of P key")
    case None
    then have "w' = r3_banner t i key w" using r by (simp add: r3_iteration_generate [OF False])
    then show ?thesis using h pauses_after_calls_no_sleep [OF hs] by blast
  next
    case (Some pr)
    let ?req = "NetCall (primary_request round3_cfg k pr ''1024x1024'' ''high'')"
    from r3_iteration_generate_trace [OF False Some r] obtain body where
      t: "trace w' = trace (r3_banner t i key w)
             @ Print (calling_line round3_cfg ''1024x1024'' ''high'')
             # ?req # body @ (if i < t \<and> \<not> isl x then [Sleep 1500] else [])"
      and b: "\<forall>e\<in>set body. \<not> is_sleep e"
      by blast
    let ?xs = "hd @ Print (calling_line round3_cfg ''1024x1024'' ''high'') # ?req # body"
    have ns: "\<forall>e\<in>set ?xs. \<not> is_sleep e" using b hs by auto
    have ca: "\<exists>e\<in>set ?xs. is_call e" by simp
    have "pauses_after_calls 1500 (?xs @ (if i < t \<and> \<not> isl x then [Sleep 1500] else []))"
      using pauses_after_calls_last [OF ns ca] pauses_after_calls_no_sleep [OF ns] by simp
    moreover have "trace w' = trace w @ (?xs @ (if i < t \<and> \<not> isl x then [Sleep 1500] else []))"
      using t h by simp
    ultimately show ?thesis by blast
  qed
qed

lemma r3_loop_paced:
  "r3_loop P E k od t i keys n w = (x, w')
     \<Longrightarrow> \<exists>evs. trace w' = trace w @ evs \<and> pauses_after_calls 1500 evs"
proof (induction keys arbitrary: i n w)
  case Nil
  then have "trace w' = trace w @ []" by simp
  moreover have "pauses_after_calls 1500 []" by (rule pauses_after_calls_no_sleep) simp
  ultimately show ?case by blast
next
  case (Cons key keys)
  obtain y w1 where step: "r3_iteration P E k od t i key n w = (y, w1)"
    by (cases "r3_iteration P E k od t i key n w")
  from r3_iteration_paced [OF step] obtain evs1 where
    t1: "trace w1 = trace w @ evs1" and p1: "pauses_after_calls 1500 evs1" by blast
  show ?case
  proof (cases y)
    case (Inl e)
    then have "w' = w1" using Cons.prems step by simp
    then show ?thesis using t1 p1 by blast
  next
    case (Inr m)
    then have "r3_loop P E k od t (i + 1) keys m w1 = (x, w')" using Cons.prems step by simp
    from Cons.IH [OF this] obtain evs2 where
      t2: "trace w' = trace w1 @ evs2" and p2: "pauses_after_calls 1500 evs2" by blast
    have "trace w' = trace w @ (evs1 @ evs2)" using t1 t2 by simp
    then show ?thesis using pauses_after_calls_append [OF p1 p2] by blast
  qed
qed


lemma run_concept_paced:
  assumes r: "run_concept P E k cid v q s bd w = (x, w')"
  shows "\<exists>evs. trace w' = trace w @ evs \<and> pauses_after_calls 1000 evs"
proof -
  have none: "\<exists>evs. trace w = trace w @ evs \<and> pauses_after_calls 1000 evs"
    using pauses_after_calls_no_sleep [of "[]" 1000] by simp
  show ?thesis
  proof (cases "map_of P cid")
    case None
    then have "w' = w" using r by (simp add: run_concept_def)
    then show ?thesis using none by simp
  next
    case (Some c)
    show ?thesis
    proof (cases "map_of CONCEPT_DIRS cid")
      case None
      then have "w' = w" using r Some by (simp add: run_concept_def)
      then show ?thesis using none by simp
    next
      case d: (Some d)
      let ?w0 = "concept_start cid c (path_div bd d) v w"
      from concept_start_trace [of cid c "path_div bd d" v w] obtain hd where
        h: "trace ?w0 = trace w @ Mkdir (path_div bd d) # hd" and hp: "\<forall>e\<in>set hd. is_print e"
        by blast
      have "\<forall>e\<in>set (Mkdir (path_div bd d) # hd). \<not> is_sleep e"
        using hp print_or_call_not_sleep by auto
      then have p0: "pauses_after_calls 1000 (Mkdir (path_div bd d) # hd)"
        by (rule pauses_after_calls_no_sleep)
      have "variations_loop E c k (path_div bd d) v q s [1..v] 0 ?w0 = (x, w')"
        using r by (simp add: run_concept_eq [OF Some d])
      from variations_loop_paced [OF this] obtain evs where
        t: "trace w' = trace ?w0 @ evs" and p: "pauses_after_calls 1000 evs" by blast
      have "trace w' = trace w @ ((Mkdir (path_div bd d) # hd) @ evs)" using t h by simp
      then show ?thesis using pauses_after_calls_append [OF p0 p] by blast
    qed
  qed
qed

lemma sample_texts_table:
  "map_of (CONCEPT_PROMPTS sample_texts) 1 = Some \<lparr>name = ''The Kiln Mark'', prompt = ''P''\<rparr>"
  by (simp add: CONCEPT_PROMPTS_def sample_texts_def)

lemma sample_concept_dir:
  "path_div [''/'', ''srv''] ''concepts/01-kiln-mark'' = [''/'', ''srv'', ''concepts'', ''01-kiln-mark'']"
  by (simp add: concept_dir_div [OF sample_tables(2)] segments_concept_dirs)

lemma sample_variation_paths:
  "variation_path od 1 = od @ [''v01.png'']" "variation_path od 2 = od @ [''v02.png'']"
  "variation_path od 3 = od @ [''v03.png'']"
  by (simp_all add: variation_path_parts variation_filename_def
      fmt_02d_one [of 1] fmt_02d_one [of 2] fmt_02d_one [of 3] digit_char_def)

text \<open>
  Claim C7, as amended. In both scripts the pause is the last effect of an iteration that
  called the requestor and returned, if its index is below the number of iterations, and it
  has one fixed duration: 1000 ms in \<^verbatim>\<open>generate_logo.py\<close>, 1500 ms in \<^verbatim>\<open>generate_round3.py\<close>.
  A skipped iteration only logs a line, and an iteration that raises does not pause. So,
  over a whole loop, every pause has the fixed duration and comes after a network call, none
  before the first one; but a pause is made whether or not a later iteration calls the
  network.
\<close>

theorem C7_pacing:
  "(path_exists w (variation_path od i) \<longrightarrow>
      events_since w (snd (run_variation E c k od v q s i n w)) = [Print (skip_line i v)])
   \<and> (\<not> path_exists w (variation_path od i) \<and> run_variation E c k od v q s i n w = (x, w') \<longrightarrow>
      (\<exists>body. events_since w w'
           = Print (generating_line i v) # Print (calling_line logo_cfg s q)
             # NetCall (primary_request logo_cfg k (prompt c @ variation_suffix i) s q)
             # body @ (if i < v \<and> \<not> isl x then [Sleep 1000] else [])
         \<and> (\<forall>e\<in>set body. \<not> is_sleep e)))
   \<and> (variations_loop E c k od v q s js n w = (x, w') \<longrightarrow>
        pauses_after_calls 1000 (events_since w w'))
   \<and> (run_concept P E k cid v q s bd w = (x, w') \<longrightarrow>
        pauses_after_calls 1000 (events_since w w'))
   \<and> (path_exists w (key_path od key) \<longrightarrow>
        events_since w (snd (r3_iteration R E k od t i key n w)) = [Print (r3_skip_line t i key)])
   \<and> (\<not> path_exists w (key_path od key) \<and> map_of R key = Some pr
        \<and> r3_iteration R E k od t i key n w = (x, w') \<longrightarrow>
      (\<exists>body. events_since (r3_banner t i key w) w'
           = Print (calling_line round3_cfg ''1024x1024'' ''high'')
             # NetCall (primary_request round3_cfg k pr ''1024x1024'' ''high'')
             # body @ (if i < t \<and> \<not> isl x then [Sleep 1500] else [])
         \<and> (\<forall>e\<in>set body. \<not> is_sleep e)))
   \<and> (r3_loop R E k od t i keys n w = (x, w') \<longrightarrow>
        pauses_after_calls 1500 (events_since w w'))"
proof (intro conjI impI)
  assume "path_exists w (variation_path od i)"
  then show "events_since w (snd (run_variation E c k od v q s i n w)) = [Print (skip_line i v)]"
    by (simp add: run_variation_skip events_since_def)
next
  assume a: "\<not> path_exists w (variation_path od i) \<and> run_variation E c k od v q s i n w = (x, w')"
  from run_variation_generate_trace [OF conjunct1 [OF a] conjunct2 [OF a]] obtain body where
    t: "trace w' = trace w @ Print (generating_line i v) # Print (calling_line logo_cfg s q)
             # NetCall (primary_request logo_cfg k (prompt c @ variation_suffix i) s q)
             # body @ (if i < v \<and> \<not> isl x then [Sleep 1000] else [])"
    and b: "\<forall>e\<in>set body. \<not> is_sleep e"
    by blast
  show "\<exists>body. events_since w w'
           = Print (generating_line i v) # Print (calling_line logo_cfg s q)
             # NetCall (primary_request logo_cfg k (prompt c @ variation_suffix i) s q)
             # body @ (if i < v \<and> \<not> isl x then [Sleep 1000] else [])
         \<and> (\<forall>e\<in>set body. \<not> is_sleep e)"
    using events_since_append [OF t] b by blast
next
  assume "variations_loop E c k od v q s js n w = (x, w')"
  from variations_loop_paced [OF this] show "pauses_after_calls 1000 (events_since w w')"
    using events_since_append by fastforce
next
  assume "run_concept P E k cid v q s bd w = (x, w')"
  from run_concept_paced [OF this] show "pauses_after_calls 1000 (events_since w w')"
    using events_since_append by fastforce
next
  assume "path_exists w (key_path od key)"
  then show "events_since w (snd (r3_iteration R E k od t i key n w)) = [Print (r3_skip_line t i key)]"
    by (simp add: r3_iteration_skip events_since_def)
next
  assume a: "\<not> path_exists w (key_path od key) \<and> map_of R key = Some pr
        \<and> r3_iteration R E k od t i key n w = (x, w')"
  then have a1: "\<not> path_exists w (key_path od key)" and a2: "map_of R key = Some pr"
    and a3: "r3_iteration R E k od t i key n w = (x, w')" by simp_all
  from r3_iteration_generate_trace [OF a1 a2 a3] obtain body where
    t: "trace w' = trace (r3_banner t i key w)
             @ Print (calling_line round3_cfg ''1024x1024'' ''high'')
             # NetCall (primary_request round3_cfg k pr ''1024x1024'' ''high'')
             # body @ (if i < t \<and> \<not> isl x then [Sleep 1500] else [])"
    and b: "\<forall>e\<in>set body. \<not> is_sleep e"
    by blast
  show "\<exists>body. events_since (r3_banner t i key w) w'
           = Print (calling_line round3_cfg ''1024x1024'' ''high'')
             # NetCall (primary_request round3_cfg k pr ''1024x1024'' ''high'')
             # body @ (if i < t \<and> \<not> isl x then [Sleep 1500] else [])
         \<and> (\<forall>e\<in>set body. \<not> is_sleep e)"
    using events_since_append [OF t] b by blast
next
  assume "r3_loop R E k od t i keys n w = (x, w')"
  from r3_loop_paced [OF this] show "pauses_after_calls 1500 (events_since w w')"
    using events_since_append by fastforce
qed

lemma sample_resume_run:
  fixes od :: path and W :: world
  defines "od \<equiv> [''/'', ''srv'', ''concepts'', ''01-kiln-mark'']"
  defines "W \<equiv> world_with (variation_path [''/'', ''srv'', ''concepts'', ''01-kiln-mark''] 2)
      [0x89, 0x50, 0x4E, 0x47]"
  shows "run_concept (CONCEPT_PROMPTS sample_texts) (env_always (Responds image_response)) ''sk-test''
           1 2 ''high'' ''1024x1024'' [''/'', ''srv''] W
     = (Inr 2,
        print (skip_line 2 2)
          (pace 1000 1 2
            (print (saved_line (variation_path od 1) 1024 1024)
              (persisted (variation_path od 1) [0x89, 0x50, 0x4E, 0x47]
                (after_call
                  (primary_request logo_cfg ''sk-test''
                    (prompt \<lparr>name = ''The Kiln Mark'', prompt = ''P''\<rparr> @ variation_suffix 1)
                    ''1024x1024'' ''high'')
                  (print (calling_line logo_cfg ''1024x1024'' ''high'')
                    (print (generating_line 1 2)
                      (concept_start 1 \<lparr>name = ''The Kiln Mark'', prompt = ''P''\<rparr> od 2 W))))))))"
proof -
  let ?E = "env_always (Responds image_response)"
  let ?c = "\<lparr>name = ''The Kiln Mark'', prompt = ''P''\<rparr>"
  let ?w0 = "concept_start 1 ?c od 2 W"
  let ?w1 = "pace 1000 1 2
            (print (saved_line (variation_path od 1) 1024 1024)
              (persisted (variation_path od 1) [0x89, 0x50, 0x4E, 0x47]
                (after_call
                  (primary_request logo_cfg ''sk-test'' (prompt ?c @ variation_suffix 1)
                    ''1024x1024'' ''high'')
                  (print (calling_line logo_cfg ''1024x1024'' ''high'')
                    (print (generating_line 1 2) ?w0)))))"
  have run: "run_concept (CONCEPT_PROMPTS sample_texts) ?E ''sk-test'' 1 2 ''high'' ''1024x1024''
        [''/'', ''srv''] W
      = variations_loop ?E ?c ''sk-test'' od 2 ''high'' ''1024x1024'' [1, 2] 0 ?w0"
    unfolding run_concept_eq [OF sample_texts_table sample_tables(2)] sample_concept_dir
      upto_samples od_def ..
  have ne1: "\<not> path_exists ?w0 (variation_path od 1)"
    by (simp add: W_def od_def variation_path_inj variation_path_not_prefix)
  have s1: "run_variation ?E ?c ''sk-test'' od 2 ''high'' ''1024x1024'' 1 0 ?w0 = (Inr (0 + 1), ?w1)"
    by (rule run_variation_delivered [OF ne1 env_always_image(1) env_always_image(2)
          env_always_image(3)])
  have e2: "path_exists ?w1 (variation_path od 2)"
    by (simp add: W_def od_def path_exists_persisted)
  have s2: "run_variation ?E ?c ''sk-test'' od 2 ''high'' ''1024x1024'' 2 (0 + 1) ?w1
      = (Inr (0 + 1 + 1), print (skip_line 2 2) ?w1)"
    by (rule run_variation_skip [OF e2])
  have "variations_loop ?E ?c ''sk-test'' od 2 ''high'' ''1024x1024'' [1, 2] 0 ?w0
      = (Inr (0 + 1 + 1), print (skip_line 2 2) ?w1)"
    by (simp only: variations_loop.simps s1 s2 prod.case sum.case)
  then show ?thesis unfolding run by simp
qed

text \<open>
  Claim C7 as first stated does not hold. Two variations are asked for, \<^verbatim>\<open>v02.png\<close> is on
  disk and \<^verbatim>\<open>v01.png\<close> is not: the one iteration that calls the network is followed by the
  pause, although no other iteration calls the network.
\<close>

theorem C7_trailing_pause_counterexample:
  "variation_path [''/'', ''srv'', ''concepts'', ''01-kiln-mark''] 2
     = [''/'', ''srv'', ''concepts'', ''01-kiln-mark'', ''v02.png'']
   \<and> fst (run_concept (CONCEPT_PROMPTS sample_texts) (env_always (Responds image_response))
            ''sk-test'' 1 2 ''high'' ''1024x1024'' [''/'', ''srv'']
            (world_with (variation_path [''/'', ''srv'', ''concepts'', ''01-kiln-mark''] 2)
               [0x89, 0x50, 0x4E, 0x47])) = Inr 2
   \<and> pacing_events
        (events_since
          (world_with (variation_path [''/'', ''srv'', ''concepts'', ''01-kiln-mark''] 2)
             [0x89, 0x50, 0x4E, 0x47])
          (snd (run_concept (CONCEPT_PROMPTS sample_texts) (env_always (Responds image_response))
            ''sk-test'' 1 2 ''high'' ''1024x1024'' [''/'', ''srv'']
            (world_with (variation_path [''/'', ''srv'', ''concepts'', ''01-kiln-mark''] 2)
               [0x89, 0x50, 0x4E, 0x47]))))
       = [NetCall (primary_request logo_cfg ''sk-test'' ''P'' ''1024x1024'' ''high''), Sleep 1000]"
  unfolding sample_resume_run
  by (simp add: sample_variation_paths events_since_def pacing_events_def concept_start_def
      variation_suffix_def world_with_def)

theorem C7_pacing_witness:
  "events_since (world_with (variation_path [''/'', ''srv''] 1) [0x89])
      (snd (run_variation (env_always Raises) \<lparr>name = ''The Kiln Mark'', prompt = ''P''\<rparr> ''sk-test''
             [''/'', ''srv''] 2 ''high'' ''1024x1024'' 1 0
             (world_with (variation_path [''/'', ''srv''] 1) [0x89])))
     = [Print (skip_line 1 2)]
   \<and> pauses_after_calls 1000
        (events_since
          (world_with (variation_path [''/'', ''srv'', ''concepts'', ''01-kiln-mark''] 2)
             [0x89, 0x50, 0x4E, 0x47])
          (snd (run_concept (CONCEPT_PROMPTS sample_texts) (env_always (Responds image_response))
            ''sk-test'' 1 2 ''high'' ''1024x1024'' [''/'', ''srv'']
            (world_with (variation_path [''/'', ''srv'', ''concepts'', ''01-kiln-mark''] 2)
               [0x89, 0x50, 0x4E, 0x47]))))
   \<and> events_since (world_with (key_path [''/'', ''srv''] ''logo'') [0x89])
      (snd (r3_iteration [(''logo'', ''P'')] (env_always Raises) ''sk-test'' [''/'', ''srv''] 2 1
             ''logo'' 0 (world_with (key_path [''/'', ''srv''] ''logo'') [0x89])))
     = [Print (r3_skip_line 2 1 ''logo'')]"
proof -
  let ?W1 = "world_with (variation_path [''/'', ''srv''] 1) [0x89]"
  let ?W2 = "world_with (variation_path [''/'', ''srv'', ''concepts'', ''01-kiln-mark''] 2)
             [0x89, 0x50, 0x4E, 0x47]"
  let ?W3 = "world_with (key_path [''/'', ''srv''] ''logo'') [0x89]"
  let ?run = "run_concept (CONCEPT_PROMPTS sample_texts) (env_always (Responds image_response))
            ''sk-test'' 1 2 ''high'' ''1024x1024'' [''/'', ''srv''] ?W2"
  note A = C7_pacing [where w = ?W1 and od = "[''/'', ''srv'']" and i = 1 and v = 2
      and E = "env_always Raises" and c = "\<lparr>name = ''The Kiln Mark'', prompt = ''P''\<rparr>"
      and k = "''sk-test''" and q = "''high''" and s = "''1024x1024''" and n = 0]
  note A1 = A [THEN conjunct1, THEN mp]
  have h1: "path_exists ?W1 (variation_path [''/'', ''srv''] 1)" by simp
  note B = C7_pacing [where w = ?W2 and P = "CONCEPT_PROMPTS sample_texts"
      and E = "env_always (Responds image_response)" and cid = 1 and v = 2
      and k = "''sk-test''" and q = "''high''" and s = "''1024x1024''" and bd = "[''/'', ''srv'']"
      and x = "fst ?run" and w' = "snd ?run"]
  note B4 = B [THEN conjunct2, THEN conjunct2, THEN conjunct2, THEN conjunct1, THEN mp]
  have h4: "?run = (fst ?run, snd ?run)" by simp
  note D = C7_pacing [where w = ?W3 and od = "[''/'', ''srv'']" and i = 1 and t = 2
      and E = "env_always Raises" and R = "[(''logo'', ''P'')]" and key = "''logo''"
      and k = "''sk-test''" and n = 0]
  note D5 = D [THEN conjunct2, THEN conjunct2, THEN conjunct2, THEN conjunct2, THEN conjunct1, THEN mp]
  have h5: "path_exists ?W3 (key_path [''/'', ''srv''] ''logo'')" by simp
  show ?thesis by (intro conjI A1 [OF h1] B4 [OF h4] D5 [OF h5])
qed

section \<open>Failures and exceptions in the batch\<close>

lemma generate_image_with_raises:
  assumes "net E (ncalls w) (primary_request C k p s q) = Raises"
  shows "generate_image_with C E k p s q w =
           (Inl TransportError, after_call (primary_request C k p s q) (print (calling_line C s q) w))"
  using assms by (simp add: generate_image_with_eq)

lemma run_variation_none:
  assumes ne: "\<not> path_exists w (variation_path od i)"
    and g: "generate_image E k (prompt c @ variation_suffix i) s q (print (generating_line i v) w)
              = (Inr None, w2)"
  shows "run_variation E c k od v q s i n w = (Inr n, pace 1000 i v (print (failed_line i) w2))"
  unfolding run_variation_generate [OF ne] g by (simp add: truthy_def)

lemma run_variation_raises:
  assumes ne: "\<not> path_exists w (variation_path od i)"
    and g: "generate_image E k (prompt c @ variation_suffix i) s q (print (generating_line i v) w)
              = (Inl e, w2)"
  shows "run_variation E c k od v q s i n w = (Inl e, w2)"
  unfolding run_variation_generate [OF ne] g by simp

lemma run_variation_invalid_image:
  assumes ne: "\<not> path_exists w (variation_path od i)"
    and g: "generate_image E k (prompt c @ variation_suffix i) s q (print (generating_line i v) w)
              = (Inr (Some b), w2)"
    and b: "b \<noteq> []" and o: "image_open E b = None"
  shows "run_variation E c k od v q s i n w
           = (Inl UnidentifiedImageError, persisted (variation_path od i) b w2)"
  unfolding run_variation_generate [OF ne] g using b o by (simp add: truthy_def)

lemma main_single_concept:
  assumes "\<not> arg_list a" "arg_concept a = Some cid" "cid \<noteq> 0" "\<not> arg_all a"
    and "ek = Some key" "key \<noteq> []"
  shows "main P E help ek a bd w =
     (case run_concept P E key cid (arg_variations a) (arg_quality a) (arg_size a) bd w of
        (Inl e, w') \<Rightarrow> (Inl e, w')
      | (Inr n, w') \<Rightarrow>
          (Inr (),
           print rule60
             (print (''DONE: '' @ str_int n @ ''/'' @ str_int (arg_variations a)
                      @ '' images generated successfully'')
               (print (nl @ rule60) w'))))"
  using assms by (simp add: main_def Let_def split: prod.splits sum.splits)


text \<open>
  Claim C1, as amended. Two kinds of error end in a per-image failure: an HTTP error status
  on the primary request and on the fallback request, and a 2xx answer whose body is a JSON
  object in which \<^verbatim>\<open>data\<close> is missing or empty or starts with an object that has neither
  \<^verbatim>\<open>b64_json\<close> nor \<^verbatim>\<open>url\<close>. For these \<^verbatim>\<open>generate_image\<close> returns \<^verbatim>\<open>None\<close>; the loop then logs
  \<^verbatim>\<open>FAILED to generate\<close>, leaves the success count as it is and goes on with the next
  index. The other two kinds are not caught anywhere: a transport error raised by the
  request, and bytes that do not open as an image after they were written, are exceptions
  that leave the iteration, the loop, \<^verbatim>\<open>run_concept\<close> and \<^verbatim>\<open>main\<close>, with no later iteration
  and no final report.
\<close>

theorem C1_failure_handling:
  fixes r r1 r2 :: response
  shows
  "generate_image = generate_image_with logo_cfg
   \<and> (net E (ncalls w) (primary_request C k p s q) = Responds r1 \<and> \<not> is_success r1
        \<and> MODEL C \<noteq> FALLBACK_MODEL C
        \<and> net E (Suc (ncalls w)) (fallback_request C k p s q) = Responds r2 \<and> \<not> is_success r2 \<longrightarrow>
       fst (generate_image_with C E k p s q w) = Inr None)
   \<and> (net E (ncalls w) (primary_request C k p s q) = Responds r \<and> is_success r
        \<and> resp_json r = Some (JObj obj)
        \<and> (map_of obj ''data'' = None \<or> map_of obj ''data'' = Some (JArr [])
             \<or> map_of obj ''data'' = Some (JArr (JObj item # items))
                \<and> map_of item ''b64_json'' = None \<and> map_of item ''url'' = None) \<longrightarrow>
       generate_image_with C E k p s q w =
         (Inr None,
          print ''  Unexpected response format''
            (after_call (primary_request C k p s q) (print (calling_line C s q) w))))
   \<and> (\<not> path_exists w (variation_path od i)
        \<and> generate_image E k (prompt c @ variation_suffix i) s q (print (generating_line i v) w)
             = (Inr None, w2) \<longrightarrow>
       run_variation E c k od v q s i n w = (Inr n, pace 1000 i v (print (failed_line i) w2))
       \<and> variations_loop E c k od v q s (i # js) n w
           = variations_loop E c k od v q s js n (pace 1000 i v (print (failed_line i) w2)))
   \<and> (net E (ncalls w) (primary_request C k p s q) = Raises \<longrightarrow>
       generate_image_with C E k p s q w =
         (Inl TransportError, after_call (primary_request C k p s q) (print (calling_line C s q) w)))
   \<and> (\<not> path_exists w (variation_path od i)
        \<and> generate_image E k (prompt c @ variation_suffix i) s q (print (generating_line i v) w)
             = (Inl e, w2) \<longrightarrow>
       run_variation E c k od v q s i n w = (Inl e, w2)
       \<and> variations_loop E c k od v q s (i # js) n w = (Inl e, w2))
   \<and> (\<not> path_exists w (variation_path od i)
        \<and> generate_image E k (prompt c @ variation_suffix i) s q (print (generating_line i v) w)
             = (Inr (Some b), w2)
        \<and> b \<noteq> [] \<and> image_open E b = None \<longrightarrow>
       variations_loop E c k od v q s (i # js) n w
         = (Inl UnidentifiedImageError, persisted (variation_path od i) b w2))
   \<and> (map_of P cid = Some c \<and> map_of CONCEPT_DIRS cid = Some d
        \<and> variations_loop E c k (path_div bd d) v q s [1..v] 0
             (concept_start cid c (path_div bd d) v w) = (Inl e, w') \<longrightarrow>
       run_concept P E k cid v q s bd w = (Inl e, w'))
   \<and> (\<not> arg_list a \<and> arg_concept a = Some cid \<and> cid \<noteq> 0 \<and> \<not> arg_all a
        \<and> ek = Some key \<and> key \<noteq> []
        \<and> run_concept P E key cid (arg_variations a) (arg_quality a) (arg_size a) bd w = (Inl e, w') \<longrightarrow>
       main P E help ek a bd w = (Inl e, w'))"
proof (intro conjI impI)
  show "generate_image = generate_image_with logo_cfg" by (rule generate_image_def)
next
  assume a: "net E (ncalls w) (primary_request C k p s q) = Responds r1 \<and> \<not> is_success r1
        \<and> MODEL C \<noteq> FALLBACK_MODEL C
        \<and> net E (Suc (ncalls w)) (fallback_request C k p s q) = Responds r2 \<and> \<not> is_success r2"
  then have n1: "net E (ncalls w) (primary_request C k p s q) = Responds r1" and f1: "\<not> is_success r1"
    and m: "MODEL C \<noteq> FALLBACK_MODEL C"
    and n2: "net E (Suc (ncalls w)) (fallback_request C k p s q) = Responds r2" and f2: "\<not> is_success r2"
    by simp_all
  show "fst (generate_image_with C E k p s q w) = Inr None"
    unfolding fallback_fails [OF n1 f1 m n2 f2] by simp
next
  assume a: "net E (ncalls w) (primary_request C k p s q) = Responds r \<and> is_success r
        \<and> resp_json r = Some (JObj obj)
        \<and> (map_of obj ''data'' = None \<or> map_of obj ''data'' = Some (JArr [])
             \<or> map_of obj ''data'' = Some (JArr (JObj item # items))
                \<and> map_of item ''b64_json'' = None \<and> map_of item ''url'' = None)"
  then have n: "net E (ncalls w) (primary_request C k p s q) = Responds r" and ok: "is_success r"
    and j: "resp_json r = Some (JObj obj)" by simp_all
  let ?w1 = "after_call (primary_request C k p s q) (print (calling_line C s q) w)"
  have "read_response E r ?w1 = (Inr None, print ''  Unexpected response format'' ?w1)"
  proof (cases "map_of obj ''data'' = None \<or> map_of obj ''data'' = Some (JArr [])")
    case True
    then show ?thesis by (rule read_response_no_data [OF j])
  next
    case False
    then have d: "map_of obj ''data'' = Some (JArr (JObj item # items))"
      and nb: "map_of item ''b64_json'' = None" and nu: "map_of item ''url'' = None"
      using a by auto
    show ?thesis unfolding read_response_first_item [OF j d] using nb nu by simp
  qed
  then show "generate_image_with C E k p s q w =
         (Inr None,
          print ''  Unexpected response format''
            (after_call (primary_request C k p s q) (print (calling_line C s q) w)))"
    unfolding generate_image_with_primary_success [OF n ok] .
next
  assume a: "\<not> path_exists w (variation_path od i)
        \<and> generate_image E k (prompt c @ variation_suffix i) s q (print (generating_line i v) w)
             = (Inr None, w2)"
  show r: "run_variation E c k od v q s i n w = (Inr n, pace 1000 i v (print (failed_line i) w2))"
    by (rule run_variation_none [OF conjunct1 [OF a] conjunct2 [OF a]])
  show "variations_loop E c k od v q s (i # js) n w
           = variations_loop E c k od v q s js n (pace 1000 i v (print (failed_line i) w2))"
    by (simp only: variations_loop.simps r prod.case sum.case)
next
  assume "net E (ncalls w) (primary_request C k p s q) = Raises"
  then show "generate_image_with C E k p s q w =
         (Inl TransportError, after_call (primary_request C k p s q) (print (calling_line C s q) w))"
    by (rule generate_image_with_raises)
next
  assume a: "\<not> path_exists w (variation_path od i)
        \<and> generate_image E k (prompt c @ variation_suffix i) s q (print (generating_line i v) w)
             = (Inl e, w2)"
  show r: "run_variation E c k od v q s i n w = (Inl e, w2)"
    by (rule run_variation_raises [OF conjunct1 [OF a] conjunct2 [OF a]])
  show "variations_loop E c k od v q s (i # js) n w = (Inl e, w2)"
    by (simp only: variations_loop.simps r prod.case sum.case)
next
  assume a: "\<not> path_exists w (variation_path od i)
        \<and> generate_image E k (prompt c @ variation_suffix i) s q (print (generating_line i v) w)
             = (Inr (Some b), w2)
        \<and> b \<noteq> [] \<and> image_open E b = None"
  then have a1: "\<not> path_exists w (variation_path od i)"
    and a2: "generate_image E k (prompt c @ variation_suffix i) s q (print (generating_line i v) w)
             = (Inr (Some b), w2)"
    and a3: "b \<noteq> []" and a4: "image_open E b = None" by simp_all
  have r: "run_variation E c k od v q s i n w
           = (Inl UnidentifiedImageError, persisted (variation_path od i) b w2)"
    by (rule run_variation_invalid_image [OF a1 a2 a3 a4])
  show "variations_loop E c k od v q s (i # js) n w
         = (Inl UnidentifiedImageError, persisted (variation_path od i) b w2)"
    by (simp only: variations_loop.simps r prod.case sum.case)
next
  assume a: "map_of P cid = Some c \<and> map_of CONCEPT_DIRS cid = Some d
        \<and> variations_loop E c k (path_div bd d) v q s [1..v] 0
             (concept_start cid c (path_div bd d) v w) = (Inl e, w')"
  then show "run_concept P E k cid v q s bd w = (Inl e, w')"
    by (simp add: run_concept_eq)
next
  assume a: "\<not> arg_list a \<and> arg_concept a = Some cid \<and> cid \<noteq> 0 \<and> \<not> arg_all a
        \<and> ek = Some key \<and> key \<noteq> []
        \<and> run_concept P E key cid (arg_variations a) (arg_quality a) (arg_size a) bd w = (Inl e, w')"
  then have m: "\<not> arg_list a" "arg_concept a = Some cid" "cid \<noteq> 0" "\<not> arg_all a"
    "ek = Some key" "key \<noteq> []" by simp_all
  show "main P E help ek a bd w = (Inl e, w')"
    unfolding main_single_concept [OF m] using a by simp
qed

lemma sample_run_raises:
  "run_concept (CONCEPT_PROMPTS sample_texts) (env_always Raises) ''sk-test'' 1 2 ''high''
       ''1024x1024'' [''/'', ''srv''] empty_world
     = (Inl TransportError,
        after_call
          (primary_request logo_cfg ''sk-test''
            (prompt \<lparr>name = ''The Kiln Mark'', prompt = ''P''\<rparr> @ variation_suffix 1)
            ''1024x1024'' ''high'')
          (print (calling_line logo_cfg ''1024x1024'' ''high'')
            (print (generating_line 1 2)
              (concept_start 1 \<lparr>name = ''The Kiln Mark'', prompt = ''P''\<rparr>
                [''/'', ''srv'', ''concepts'', ''01-kiln-mark''] 2 empty_world))))"
proof -
  let ?E = "env_always Raises"
  let ?c = "\<lparr>name = ''The Kiln Mark'', prompt = ''P''\<rparr>"
  let ?od = "[''/'', ''srv'', ''concepts'', ''01-kiln-mark'']"
  let ?w0 = "concept_start 1 ?c ?od 2 empty_world"
  let ?w2 = "after_call
          (primary_request logo_cfg ''sk-test'' (prompt ?c @ variation_suffix 1) ''1024x1024'' ''high'')
          (print (calling_line logo_cfg ''1024x1024'' ''high'') (print (generating_line 1 2) ?w0))"
  have run: "run_concept (CONCEPT_PROMPTS sample_texts) ?E ''sk-test'' 1 2 ''high'' ''1024x1024''
        [''/'', ''srv''] empty_world
      = variations_loop ?E ?c ''sk-test'' ?od 2 ''high'' ''1024x1024'' [1, 2] 0 ?w0"
    unfolding run_concept_eq [OF sample_texts_table sample_tables(2)] sample_concept_dir
      upto_samples ..
  have ne1: "\<not> path_exists ?w0 (variation_path ?od 1)"
    by (simp add: variation_path_not_prefix)
  have g: "generate_image ?E ''sk-test'' (prompt ?c @ variation_suffix 1) ''1024x1024'' ''high''
      (print (generating_line 1 2) ?w0) = (Inl TransportError, ?w2)"
    unfolding generate_image_def by (rule generate_image_with_raises [OF env_always_image(1)])
  have s1: "run_variation ?E ?c ''sk-test'' ?od 2 ''high'' ''1024x1024'' 1 0 ?w0
      = (Inl TransportError, ?w2)"
    by (rule run_variation_raises [OF ne1 g])
  show ?thesis unfolding run by (simp only: variations_loop.simps s1 prod.case sum.case)
qed

lemma sample_run_corrupt:
  "run_concept (CONCEPT_PROMPTS sample_texts) env_corrupt ''sk-test'' 1 2 ''high''
       ''1024x1024'' [''/'', ''srv''] empty_world
     = (Inl UnidentifiedImageError,
        persisted (variation_path [''/'', ''srv'', ''concepts'', ''01-kiln-mark''] 1) [0x00]
         (after_call
          (primary_request logo_cfg ''sk-test''
            (prompt \<lparr>name = ''The Kiln Mark'', prompt = ''P''\<rparr> @ variation_suffix 1)
            ''1024x1024'' ''high'')
          (print (calling_line logo_cfg ''1024x1024'' ''high'')
            (print (generating_line 1 2)
              (concept_start 1 \<lparr>name = ''The Kiln Mark'', prompt = ''P''\<rparr>
                [''/'', ''srv'', ''concepts'', ''01-kiln-mark''] 2 empty_world)))))"
proof -
  let ?E = "env_corrupt"
  let ?c = "\<lparr>name = ''The Kiln Mark'', prompt = ''P''\<rparr>"
  let ?od = "[''/'', ''srv'', ''concepts'', ''01-kiln-mark'']"
  let ?w0 = "concept_start 1 ?c ?od 2 empty_world"
  let ?w2 = "after_call
          (primary_request logo_cfg ''sk-test'' (prompt ?c @ variation_suffix 1) ''1024x1024'' ''high'')
          (print (calling_line logo_cfg ''1024x1024'' ''high'') (print (generating_line 1 2) ?w0))"
  have run: "run_concept (CONCEPT_PROMPTS sample_texts) ?E ''sk-test'' 1 2 ''high'' ''1024x1024''
        [''/'', ''srv''] empty_world
      = variations_loop ?E ?c ''sk-test'' ?od 2 ''high'' ''1024x1024'' [1, 2] 0 ?w0"
    unfolding run_concept_eq [OF sample_texts_table sample_tables(2)] sample_concept_dir
      upto_samples ..
  have ne1: "\<not> path_exists ?w0 (variation_path ?od 1)"
    by (simp add: variation_path_not_prefix)
  have g: "generate_image ?E ''sk-test'' (prompt ?c @ variation_suffix 1) ''1024x1024'' ''high''
      (print (generating_line 1 2) ?w0) = (Inr (Some [0x00]), ?w2)"
    unfolding generate_image_def by (rule generate_image_with_env_corrupt)
  have s1: "run_variation ?E ?c ''sk-test'' ?od 2 ''high'' ''1024x1024'' 1 0 ?w0
      = (Inl UnidentifiedImageError, persisted (variation_path ?od 1) [0x00] ?w2)"
    by (rule run_variation_invalid_image [OF ne1 g _ env_corrupt_delivery(5)]) simp
  show ?thesis unfolding run by (simp only: variations_loop.simps s1 prod.case sum.case)
qed

lemma sample_args_single:
  "\<not> arg_list sample_args" "arg_concept sample_args = Some 1" "(1 :: int) \<noteq> 0"
  "\<not> arg_all sample_args" "Some ''sk-test'' = Some ''sk-test''" "''sk-test'' \<noteq> []"
  "arg_variations sample_args = 2" "arg_quality sample_args = ''high''"
  "arg_size sample_args = ''1024x1024''"
  by (simp_all add: sample_args_def)

text \<open>
  Claim C1 as first stated does not hold. Two variations of concept 1 are asked for and no
  file exists. If the first request fails in transport, the exception ends \<^verbatim>\<open>main\<close> after
  that one call: the second variation is not tried and nothing is reported. The same
  happens when the first image arrives but its bytes do not open as an image.
\<close>

theorem C1_uncaught_exception_counterexample:
  "fst (main (CONCEPT_PROMPTS sample_texts) (env_always Raises) [] (Some ''sk-test'') sample_args
          [''/'', ''srv''] empty_world) = Inl TransportError
   \<and> ncalls (snd (main (CONCEPT_PROMPTS sample_texts) (env_always Raises) [] (Some ''sk-test'')
          sample_args [''/'', ''srv''] empty_world)) = 1
   \<and> fst (main (CONCEPT_PROMPTS sample_texts) env_corrupt [] (Some ''sk-test'') sample_args
          [''/'', ''srv''] empty_world) = Inl UnidentifiedImageError
   \<and> ncalls (snd (main (CONCEPT_PROMPTS sample_texts) env_corrupt [] (Some ''sk-test'')
          sample_args [''/'', ''srv''] empty_world)) = 1"
  unfolding main_single_concept [OF sample_args_single(1) sample_args_single(2) sample_args_single(3)
      sample_args_single(4) sample_args_single(5) sample_args_single(6)]
    sample_args_single(7) sample_args_single(8) sample_args_single(9)
    sample_run_raises sample_run_corrupt
  by (simp add: empty_world_def)

theorem C1_failure_handling_witness:
  "fst (generate_image_with logo_cfg (env_always (Responds error_response)) ''sk-test'' ''P''
          ''1024x1024'' ''high'' empty_world) = Inr None
   \<and> fst (run_variation (env_always (Responds error_response))
            \<lparr>name = ''The Kiln Mark'', prompt = ''P''\<rparr> ''sk-test'' [''/'', ''srv''] 2 ''high''
            ''1024x1024'' 1 0 empty_world) = Inr 0
   \<and> fst (run_variation (env_always Raises)
            \<lparr>name = ''The Kiln Mark'', prompt = ''P''\<rparr> ''sk-test'' [''/'', ''srv''] 2 ''high''
            ''1024x1024'' 1 0 empty_world) = Inl TransportError"
proof -
  let ?Ee = "env_always (Responds error_response)"
  let ?Er = "env_always Raises"
  let ?c = "\<lparr>name = ''The Kiln Mark'', prompt = ''P''\<rparr>"
  let ?od = "[''/'', ''srv'']"
  let ?w1 = "print (generating_line 1 2) empty_world"
  let ?p = "prompt ?c @ variation_suffix 1"
  have ne: "\<not> path_exists empty_world (variation_path ?od 1)" by simp
  have bad: "\<not> is_success error_response" by (simp add: is_success_def error_response_def)
  have md: "MODEL logo_cfg \<noteq> FALLBACK_MODEL logo_cfg" by (simp add: logo_cfg_def)
  note A = C1_failure_handling [where E = ?Ee and C = logo_cfg and k = "''sk-test''"
      and ?r1.0 = error_response and ?r2.0 = error_response and s = "''1024x1024''" and q = "''high''"]
  note A2 = A [THEN conjunct2, THEN conjunct1, THEN mp]
  have h2: "\<And>w p. net ?Ee (ncalls w) (primary_request logo_cfg ''sk-test'' p ''1024x1024'' ''high'')
        = Responds error_response \<and> \<not> is_success error_response
      \<and> MODEL logo_cfg \<noteq> FALLBACK_MODEL logo_cfg
      \<and> net ?Ee (Suc (ncalls w)) (fallback_request logo_cfg ''sk-test'' p ''1024x1024'' ''high'')
        = Responds error_response \<and> \<not> is_success error_response"
    using bad md by (simp add: env_always_image(1))
  have g0: "fst (generate_image_with logo_cfg ?Ee ''sk-test'' ''P'' ''1024x1024'' ''high'' empty_world)
      = Inr None"
    by (rule A2 [OF h2])
  have g1: "fst (generate_image ?Ee ''sk-test'' ?p ''1024x1024'' ''high'' ?w1) = Inr None"
    unfolding generate_image_def by (rule A2 [OF h2])
  note B = C1_failure_handling [where E = ?Ee and k = "''sk-test''" and c = ?c and od = ?od
      and i = 1 and v = 2 and n = 0 and s = "''1024x1024''" and q = "''high''" and w = empty_world
      and ?w2.0 = "snd (generate_image ?Ee ''sk-test'' ?p ''1024x1024'' ''high'' ?w1)"]
  note B4 = B [THEN conjunct2, THEN conjunct2, THEN conjunct2, THEN conjunct1, THEN mp, THEN conjunct1]
  have r0: "fst (run_variation ?Ee ?c ''sk-test'' ?od 2 ''high'' ''1024x1024'' 1 0 empty_world) = Inr 0"
    unfolding B4 [OF conjI [OF ne result_collapse [OF g1]]] by simp
  note D = C1_failure_handling [where E = ?Er and C = logo_cfg and k = "''sk-test''" and c = ?c
      and od = ?od and i = 1 and v = 2 and n = 0 and s = "''1024x1024''" and q = "''high''"
      and p = ?p and w = ?w1 and e = TransportError
      and ?w2.0 = "after_call (primary_request logo_cfg ''sk-test'' ?p ''1024x1024'' ''high'')
          (print (calling_line logo_cfg ''1024x1024'' ''high'') ?w1)"]
  note D5 = D [THEN conjunct2, THEN conjunct2, THEN conjunct2, THEN conjunct2, THEN conjunct1, THEN mp]
  have g2: "generate_image ?Er ''sk-test'' ?p ''1024x1024'' ''high'' ?w1
      = (Inl TransportError,
         after_call (primary_request logo_cfg ''sk-test'' ?p ''1024x1024'' ''high'')
          (print (calling_line logo_cfg ''1024x1024'' ''high'') ?w1))"
    unfolding generate_image_def by (rule D5 [OF env_always_image(1)])
  note F = C1_failure_handling [where E = ?Er and k = "''sk-test''" and c = ?c
      and od = ?od and i = 1 and v = 2 and n = 0 and s = "''1024x1024''" and q = "''high''"
      and w = empty_world and e = TransportError
      and ?w2.0 = "after_call (primary_request logo_cfg ''sk-test'' ?p ''1024x1024'' ''high'')
          (print (calling_line logo_cfg ''1024x1024'' ''high'') ?w1)"]
  note F6 = F [THEN conjunct2, THEN conjunct2, THEN conjunct2, THEN conjunct2, THEN conjunct2,
      THEN conjunct1, THEN mp, THEN conjunct1]
  have r1: "fst (run_variation ?Er ?c ''sk-test'' ?od 2 ''high'' ''1024x1024'' 1 0 empty_world)
      = Inl TransportError"
    unfolding F6 [OF conjI [OF ne g2]] by simp
  show ?thesis using g0 r0 r1 by simp
qed

section \<open>Resuming a batch\<close>






section \<open>Running a batch again\<close>

lemma run_variation_mono:
  assumes r: "run_variation E c k od v q s i n w = (x, w')" and p: "path_exists w p"
  shows "path_exists w' p"
proof (cases "path_exists w (variation_path od i)")
  case True
  then show ?thesis using r p by (auto simp: run_variation_skip)
next
  case False
  from run_variation_generate_trace [OF False r] show ?thesis using p by blast
qed

lemma run_variation_success_exists:
  assumes r: "run_variation E c k od v q s i n w = (Inr (n + 1), w')"
  shows "path_exists w' (variation_path od i)"
proof (cases "path_exists w (variation_path od i)")
  case True
  then show ?thesis using r by (auto simp: run_variation_skip)
next
  case False
  show ?thesis
    using r unfolding run_variation_generate [OF False]
    by (auto simp: path_exists_persisted split: prod.splits sum.splits option.splits if_splits)
qed

lemma variations_loop_mono:
  "variations_loop E c k od v q s js n w = (x, w') \<Longrightarrow> path_exists w p \<Longrightarrow> path_exists w' p"
proof (induction js arbitrary: n w)
  case Nil
  then show ?case by simp
next
  case (Cons i js)
  obtain y w1 where step: "run_variation E c k od v q s i n w = (y, w1)"
    by (cases "run_variation E c k od v q s i n w")
  have p1: "path_exists w1 p" by (rule run_variation_mono [OF step Cons.prems(2)])
  show ?case
  proof (cases y)
    case (Inl e)
    then show ?thesis using Cons.prems(1) step p1 by simp
  next
    case (Inr m)
    then have "variations_loop E c k od v q s js m w1 = (x, w')" using Cons.prems(1) step by simp
    from Cons.IH [OF this p1] show ?thesis .
  qed
qed

lemma variations_loop_all_succeeded:
  "variations_loop E c k od v q s js n w = (Inr n', w') \<Longrightarrow> n' = n + int (length js)
     \<Longrightarrow> \<forall>i\<in>set js. path_exists w' (variation_path od i)"
proof (induction js arbitrary: n w)
  case Nil
  then show ?case by simp
next
  case (Cons i js)
  obtain y w1 where step: "run_variation E c k od v q s i n w = (y, w1)"
    by (cases "run_variation E c k od v q s i n w")
  show ?case
  proof (cases y)
    case (Inl e)
    then show ?thesis using Cons.prems(1) step by simp
  next
    case (Inr m)
    then have rest: "variations_loop E c k od v q s js m w1 = (Inr n', w')"
      using Cons.prems(1) step by simp
    have m: "m = n \<or> m = n + 1" using run_variation_count step Inr by blast
    have b: "n' \<le> m + int (length js)" using variations_loop_count [OF rest] by simp
    have m1: "m = n + 1" using m b Cons.prems(2) by auto
    then have "path_exists w1 (variation_path od i)"
      using run_variation_success_exists step Inr by blast
    then have "path_exists w' (variation_path od i)" by (rule variations_loop_mono [OF rest])
    moreover have "\<forall>j\<in>set js. path_exists w' (variation_path od j)"
      by (rule Cons.IH [OF rest]) (use m1 Cons.prems(2) in simp)
    ultimately show ?thesis by simp
  qed
qed

lemma variations_loop_all_exist:
  "\<forall>i\<in>set js. path_exists w (variation_path od i) \<Longrightarrow>
     \<exists>w' evs. variations_loop E c k od v q s js n w = (Inr (n + int (length js)), w')
        \<and> ncalls w' = ncalls w \<and> files w' = files w \<and> dirs w' = dirs w
        \<and> trace w' = trace w @ evs \<and> (\<forall>e\<in>set evs. is_print e)"
proof (induction js arbitrary: n w)
  case Nil
  then show ?case by simp
next
  case (Cons i js)
  let ?w1 = "print (skip_line i v) w"
  have e: "path_exists w (variation_path od i)" using Cons.prems by simp
  have step: "run_variation E c k od v q s i n w = (Inr (n + 1), ?w1)"
    by (rule run_variation_skip [OF e])
  have "\<forall>j\<in>set js. path_exists ?w1 (variation_path od j)" using Cons.prems by simp
  from Cons.IH [OF this, of "n + 1"] obtain w' evs where
    l: "variations_loop E c k od v q s js (n + 1) ?w1 = (Inr (n + 1 + int (length js)), w')"
    and f: "ncalls w' = ncalls ?w1" "files w' = files ?w1" "dirs w' = dirs ?w1"
    and t: "trace w' = trace ?w1 @ evs" and p: "\<forall>e\<in>set evs. is_print e"
    by blast
  have "variations_loop E c k od v q s (i # js) n w = (Inr (n + int (length (i # js))), w')"
    using step l by (simp add: add.commute add.left_commute)
  moreover have "ncalls w' = ncalls w" "files w' = files w" "dirs w' = dirs w" using f by simp_all
  moreover have "trace w' = trace w @ (Print (skip_line i v) # evs)" using t by simp
  moreover have "\<forall>e\<in>set (Print (skip_line i v) # evs). is_print e" using p by simp
  ultimately show ?case by blast
qed

lemma print_not_call: "is_print e \<Longrightarrow> \<not> is_call e"
  by (cases e) auto

text \<open>
  Claim C5. If a run of \<^verbatim>\<open>run_concept\<close> returns with every variation counted as succeeded,
  then a second run with the same arguments, started in the state the first one left and
  whatever the network would answer, returns the same count without any network call: every
  output path exists, so every iteration is skipped. The files on disk are those the first
  run left.
\<close>

theorem C5_second_run:
  "run_concept P E k cid v q s bd w = (Inr n1, w1) \<and> n1 = max 0 v \<longrightarrow>
     fst (run_concept P E' k cid v q s bd w1) = Inr n1
     \<and> ncalls (snd (run_concept P E' k cid v q s bd w1)) = ncalls w1
     \<and> files (snd (run_concept P E' k cid v q s bd w1)) = files w1
     \<and> (\<forall>e\<in>set (events_since w1 (snd (run_concept P E' k cid v q s bd w1))). \<not> is_call e)"
proof
  assume a: "run_concept P E k cid v q s bd w = (Inr n1, w1) \<and> n1 = max 0 v"
  then have r: "run_concept P E k cid v q s bd w = (Inr n1, w1)" and n1: "n1 = max 0 v" by simp_all
  from run_concept_Inr [OF r] obtain c d where
    c: "map_of P cid = Some c" and d: "map_of CONCEPT_DIRS cid = Some d" by blast
  let ?od = "path_div bd d"
  have len: "n1 = 0 + int (length [1..v])" using n1 by (simp add: max_def)
  have l1: "variations_loop E c k ?od v q s [1..v] 0 (concept_start cid c ?od v w) = (Inr n1, w1)"
    using r by (simp add: run_concept_eq [OF c d])
  have ex: "\<forall>i\<in>set [1..v]. path_exists w1 (variation_path ?od i)"
    by (rule variations_loop_all_succeeded [OF l1 len])
  let ?w0 = "concept_start cid c ?od v w1"
  have ex': "\<forall>i\<in>set [1..v]. path_exists ?w0 (variation_path ?od i)" using ex by simp
  from variations_loop_all_exist [OF ex', of E' c k v q s 0] obtain w2 evs where
    l2: "variations_loop E' c k ?od v q s [1..v] 0 ?w0 = (Inr (0 + int (length [1..v])), w2)"
    and f: "ncalls w2 = ncalls ?w0" "files w2 = files ?w0"
    and t: "trace w2 = trace ?w0 @ evs" and p: "\<forall>e\<in>set evs. is_print e"
    by blast
  have r2: "run_concept P E' k cid v q s bd w1 = (Inr n1, w2)"
    using l2 len by (simp add: run_concept_eq [OF c d])
  from concept_start_trace [of cid c ?od v w1] obtain hd where
    h: "trace ?w0 = trace w1 @ Mkdir ?od # hd" and hp: "\<forall>e\<in>set hd. is_print e" by blast
  have ev: "events_since w1 w2 = Mkdir ?od # hd @ evs"
    using t h by (simp add: events_since_def)
  have nc: "\<forall>e\<in>set (Mkdir ?od # hd @ evs). \<not> is_call e"
    using hp p print_not_call by auto
  show "fst (run_concept P E' k cid v q s bd w1) = Inr n1
     \<and> ncalls (snd (run_concept P E' k cid v q s bd w1)) = ncalls w1
     \<and> files (snd (run_concept P E' k cid v q s bd w1)) = files w1
     \<and> (\<forall>e\<in>set (events_since w1 (snd (run_concept P E' k cid v q s bd w1))). \<not> is_call e)"
    unfolding r2 using f ev nc by simp
qed

theorem C5_second_run_witness:
  "fst (run_concept (CONCEPT_PROMPTS sample_texts) (env_always (Responds image_response)) ''sk-test''
          1 2 ''high'' ''1024x1024'' [''/'', ''srv''] empty_world) = Inr 2
   \<and> fst (run_concept (CONCEPT_PROMPTS sample_texts) (env_always Raises) ''sk-test''
          1 2 ''high'' ''1024x1024'' [''/'', ''srv'']
          (snd (run_concept (CONCEPT_PROMPTS sample_texts) (env_always (Responds image_response))
                  ''sk-test'' 1 2 ''high'' ''1024x1024'' [''/'', ''srv''] empty_world))) = Inr 2
   \<and> ncalls (snd (run_concept (CONCEPT_PROMPTS sample_texts) (env_always Raises) ''sk-test''
          1 2 ''high'' ''1024x1024'' [''/'', ''srv'']
          (snd (run_concept (CONCEPT_PROMPTS sample_texts) (env_always (Responds image_response))
                  ''sk-test'' 1 2 ''high'' ''1024x1024'' [''/'', ''srv''] empty_world)))) = 2"
proof -
  let ?P = "CONCEPT_PROMPTS sample_texts"
  let ?E = "env_always (Responds image_response)"
  let ?first = "run_concept ?P ?E ''sk-test'' 1 2 ''high'' ''1024x1024'' [''/'', ''srv''] empty_world"
  have "\<exists>w'. ?first = (Inr (int (length [1..2])), w')
      \<and> ncalls w' = ncalls empty_world + length [1..2]"
    by (rule run_concept_delivered [OF env_always_always_delivers sample_texts_table sample_tables(2)])
      simp
  then have f: "fst ?first = Inr 2" and n: "ncalls (snd ?first) = 2"
    by (auto simp: upto_samples empty_world_def)
  note T = C5_second_run [where P = ?P and E = ?E and E' = "env_always Raises" and k = "''sk-test''"
      and cid = 1 and v = 2 and q = "''high''" and s = "''1024x1024''" and bd = "[''/'', ''srv'']"
      and w = empty_world and ?n1.0 = 2 and ?w1.0 = "snd ?first"]
  have h: "?first = (Inr 2, snd ?first) \<and> (2 :: int) = max 0 2"
    using result_collapse [OF f] by simp
  note R = T [THEN mp, OF h]
  show ?thesis using f n R [THEN conjunct1] R [THEN conjunct2, THEN conjunct1] by simp
qed

end
